theory Spec2Isabelle
  imports Complex_Main "HOL-Library.AList" "HOL-Library.Log_Nat" "HOL-Library.Multiset"
begin

text \<open>
  A shallow embedding of the metrics collector (\<^verbatim>\<open>scripts/collect_metrics.py\<close>) and of the
  parts of the dashboard generator (\<^verbatim>\<open>scripts/generate_dashboard.py\<close>) that compute the
  markdown summary and the language shares. The remote platform, the clock and the
  configuration are parameters. A call that may raise returns a sum, with the exception on
  the left.
\<close>

section \<open>Exceptions\<close>

datatype error = ApiError | KeyError | ZeroDivisionError | OverflowError

section \<open>Time\<close>

text \<open>
  \<^verbatim>\<open>datetime.now()\<close> gives a naive datetime: a calendar date and a time of day, with no
  time zone. Adding a \<^verbatim>\<open>timedelta\<close> to it is exact arithmetic on that wall clock, so a
  naive datetime is modelled as a number of microseconds, counted so that the day number of
  a datetime is the ordinal of its date in the proleptic calendar: day 1 is 0001-01-01.
\<close>

type_synonym datetime = int

definition us_per_day :: int where
  "us_per_day = 86400000000"

definition us_per_minute :: int where
  "us_per_minute = 60000000"

definition timedelta_days :: "int \<Rightarrow> int" where
  \<comment> \<open>\<^verbatim>\<open>timedelta(days=d)\<close>\<close>
  "timedelta_days d = d * us_per_day"

definition midnight :: "datetime \<Rightarrow> datetime" where
  \<comment> \<open>\<^verbatim>\<open>t.replace(hour=0, minute=0, second=0, microsecond=0)\<close>\<close>
  "midnight t = (t div us_per_day) * us_per_day"

text \<open>
  \<^verbatim>\<open>strftime('%Y-%m-%d')\<close> prints the calendar date of a datetime. The model keeps the date
  itself, as its day number, instead of its print form: the print form is fixed-width, so
  two datetimes get the same string exactly when they are on the same day, and the order of
  the strings is the order of the days.
\<close>

type_synonym date = int

definition strftime_date :: "datetime \<Rightarrow> date" where
  "strftime_date t = t div us_per_day"

text \<open>
  The library represents the dates from 0001-01-01 to 9999-12-31, and day counts of a
  \<^verbatim>\<open>timedelta\<close> up to 999999999 in magnitude. Building a \<^verbatim>\<open>timedelta\<close> from a variable and
  adding it to a datetime raise \<^verbatim>\<open>OverflowError\<close> outside these ranges.
\<close>

definition min_day :: date where
  "min_day = 1"

definition max_day :: date where
  "max_day = 3652059"

definition valid_datetime :: "datetime \<Rightarrow> bool" where
  "valid_datetime t \<longleftrightarrow> min_day * us_per_day \<le> t \<and> t < (max_day + 1) * us_per_day"

definition timedelta :: "int \<Rightarrow> error + int" where
  \<comment> \<open>\<^verbatim>\<open>timedelta(days=d)\<close> for a day count that is not a literal\<close>
  "timedelta d =
     (if - 999999999 \<le> d \<and> d \<le> 999999999 then Inr (timedelta_days d) else Inl OverflowError)"

definition datetime_plus :: "datetime \<Rightarrow> int \<Rightarrow> error + datetime" where
  \<comment> \<open>\<^verbatim>\<open>t + delta\<close>, and \<^verbatim>\<open>t - delta\<close> as \<^verbatim>\<open>t + (- delta)\<close>\<close>
  "datetime_plus t delta =
     (if valid_datetime (t + delta) then Inr (t + delta) else Inl OverflowError)"

text \<open>
  A reading of \<^verbatim>\<open>datetime.now()\<close> during a run. The system clock counts from 1970-01-01
  (day 719163); the model takes its readings from there up to the last day that the library
  represents, exclusive. The offsets of the five periods are literals of at most 365 days,
  which take no such reading out of the calendar, so the periods are computed with plain
  arithmetic.
\<close>

typedef clock_reading = "{t :: datetime. 719163 * us_per_day \<le> t \<and> t < max_day * us_per_day}"
  morphisms reading Abs_clock_reading
  by (rule exI[of _ "719163 * us_per_day"]) (simp add: us_per_day_def max_day_def)

section \<open>The remote API, as the collector sees it\<close>

text \<open>
  A paginated listing is consumed lazily by a \<^verbatim>\<open>for\<close> loop: it yields items until it is
  exhausted or until fetching the next page raises.
\<close>

datatype 'a paginated = Exhausted | Fetch_failed error | Yield 'a "'a paginated"

text \<open>
  A commit of a listing. Reading \<^verbatim>\<open>commit.stats\<close> or \<^verbatim>\<open>commit.files\<close> completes the commit
  with a further request, which may raise; \<^verbatim>\<open>commit.stats\<close> is \<^verbatim>\<open>None\<close> or carries the
  additions and deletions, \<^verbatim>\<open>commit.files\<close> is \<^verbatim>\<open>None\<close> or the list of the files touched.
  Line counts are counts: natural numbers.
\<close>

record commit =
  commit_stats :: "error + (nat \<times> nat) option"
  commit_files :: "error + string list option"

record repo =
  name :: string
  full_name :: string
  html_url :: string
  description :: "string option"
  stargazers_count :: nat
  forks_count :: nat
  get_commits :: "string \<Rightarrow> datetime \<Rightarrow> datetime \<Rightarrow> error + commit paginated"
  get_languages :: "error + (string \<times> nat) list"

section \<open>Commit statistics accumulator\<close>

record stats =
  commits :: nat
  additions :: nat
  deletions :: nat
  files_changed :: nat

definition zero_stats :: stats where
  "zero_stats = \<lparr>commits = 0, additions = 0, deletions = 0, files_changed = 0\<rparr>"

text \<open>
  Statements that mutate the \<^verbatim>\<open>stats\<close> dictionary and may raise: the result is the
  dictionary as the statement left it, and the exception if one was raised.
\<close>

type_synonym 's outcome = "'s \<times> error option"

text \<open>The body of the loop over the commits of \<^verbatim>\<open>get_commit_stats\<close>.\<close>

definition count_commit :: "commit \<Rightarrow> stats \<Rightarrow> stats outcome" where
  "count_commit c st =
     (let st1 = st\<lparr>commits := commits st + 1\<rparr> in
      case commit_stats c of
        Inl e \<Rightarrow> (st1, Some e)
      | Inr cs \<Rightarrow>
          (let st2 = (case cs of
                        None \<Rightarrow> st1
                      | Some (a, d) \<Rightarrow>
                          st1\<lparr>additions := additions st1 + a, deletions := deletions st1 + d\<rparr>)
           in case commit_files c of
                Inl e \<Rightarrow> (st2, Some e)
              | Inr None \<Rightarrow> (st2, None)
              | Inr (Some fs) \<Rightarrow>
                  (if fs \<noteq> [] then st2\<lparr>files_changed := files_changed st2 + length fs\<rparr>
                   else st2, None)))"

fun for_commits :: "commit paginated \<Rightarrow> stats \<Rightarrow> stats outcome" where
  "for_commits Exhausted st = (st, None)"
| "for_commits (Fetch_failed e) st = (st, Some e)"
| "for_commits (Yield c cs) st =
     (case count_commit c st of
        (st', Some e) \<Rightarrow> (st', Some e)
      | (st', None) \<Rightarrow> for_commits cs st')"

definition try_block :: "repo \<Rightarrow> string \<Rightarrow> datetime \<Rightarrow> datetime \<Rightarrow> stats \<Rightarrow> stats outcome" where
  \<comment> \<open>the statements under \<^verbatim>\<open>try:\<close>\<close>
  "try_block r author since until st =
     (case get_commits r author since until of
        Inl e \<Rightarrow> (st, Some e)
      | Inr cs \<Rightarrow> for_commits cs st)"

definition except_pass :: "'s outcome \<Rightarrow> 's outcome" where
  \<comment> \<open>\<^verbatim>\<open>except Exception: pass\<close>: the exception is dropped, the state stays as it was left\<close>
  "except_pass oc = (case oc of (s, Some e) \<Rightarrow> (s, None) | (s, None) \<Rightarrow> (s, None))"

definition return_state :: "'s outcome \<Rightarrow> error + 's" where
  \<comment> \<open>\<^verbatim>\<open>return stats\<close> after a statement: an exception still pending leaves the function\<close>
  "return_state oc = (case oc of (s, Some e) \<Rightarrow> Inl e | (s, None) \<Rightarrow> Inr s)"

definition get_commit_stats :: "repo \<Rightarrow> string \<Rightarrow> datetime \<Rightarrow> datetime \<Rightarrow> error + stats" where
  "get_commit_stats r author since until =
     return_state (except_pass (try_block r author since until zero_stats))"


section \<open>Daily series builder\<close>

text \<open>
  An entry of the series is \<^verbatim>\<open>{'date': ..., **stats}\<close>: the four fields of the stats and
  the date.
\<close>

record daily_entry = stats +
  date :: date

definition py_range_down :: "int \<Rightarrow> int list" where
  \<comment> \<open>\<^verbatim>\<open>range(days, -1, -1)\<close>: \<^verbatim>\<open>days, days - 1, ..., 0\<close>, empty when \<^verbatim>\<open>days < 0\<close>\<close>
  "py_range_down days = rev [0..days]"

fun for_offsets :: "repo \<Rightarrow> string \<Rightarrow> datetime \<Rightarrow> int list \<Rightarrow> daily_entry list \<Rightarrow>
    error + daily_entry list" where
  "for_offsets r author now [] acc = Inr acc"
| "for_offsets r author now (i # offsets) acc =
     (case timedelta i of
        Inl e \<Rightarrow> Inl e
      | Inr delta \<Rightarrow>
     (case datetime_plus now (- delta) of
        Inl e \<Rightarrow> Inl e
      | Inr t \<Rightarrow>
     (let day_start = midnight t in
      case datetime_plus day_start (timedelta_days 1) of
        Inl e \<Rightarrow> Inl e
      | Inr day_end \<Rightarrow>
     (case get_commit_stats r author day_start day_end of
        Inl e \<Rightarrow> Inl e
      | Inr st \<Rightarrow>
          for_offsets r author now offsets
            (acc @ [\<lparr>commits = commits st, additions = additions st,
                     deletions = deletions st, files_changed = files_changed st,
                     date = strftime_date day_start\<rparr>])))))"

definition get_daily_stats :: "datetime \<Rightarrow> repo \<Rightarrow> string \<Rightarrow> int \<Rightarrow> error + daily_entry list" where
  \<comment> \<open>the first argument is the reading of \<^verbatim>\<open>datetime.now()\<close> that the function takes\<close>
  "get_daily_stats now r author days = for_offsets r author now (py_range_down days) []"

section \<open>Language byte aggregator\<close>

definition get_language_stats :: "repo \<Rightarrow> error + (string \<times> nat) list" where
  "get_language_stats r =
     (case get_languages r of
        Inl e \<Rightarrow> Inr []
      | Inr langs \<Rightarrow> Inr langs)"

section \<open>Repository enumerator\<close>

record org =
  org_get_repos :: "error + repo paginated"

record named_user =
  get_orgs :: "error + org paginated"

record github =
  get_repo :: "string \<Rightarrow> error + repo"
  get_user :: "string \<Rightarrow> error + named_user"
  auth_user_get_repos :: "error + repo paginated"

text \<open>
  \<^verbatim>\<open>auth_user_get_repos\<close> stands for \<^verbatim>\<open>g.get_user().get_repos(affiliation=...)\<close>, the
  listing of the authenticated account; \<^verbatim>\<open>get_user\<close> is \<^verbatim>\<open>g.get_user(login)\<close>.
\<close>

fun split :: "char \<Rightarrow> string \<Rightarrow> string list" where
  \<comment> \<open>\<^verbatim>\<open>s.split(sep)\<close> for a separator of one character\<close>
  "split sep [] = [[]]"
| "split sep (c # cs) =
     (if c = sep then [] # split sep cs
      else (case split sep cs of
              w # ws \<Rightarrow> (c # w) # ws
            | [] \<Rightarrow> [[c]]))"

text \<open>
  Strings are modelled by their UTF-8 bytes. \<^verbatim>\<open>str.strip()\<close> removes the characters that
  \<^verbatim>\<open>str.isspace\<close> accepts: the code points 9 to 13, 28 to 32, U+0085, U+00A0, U+1680,
  U+2000 to U+200A, U+2028, U+2029, U+202F, U+205F and U+3000, here in their encodings.
\<close>

definition whitespace :: "string list" where
  "whitespace =
     [[CHR 0x09], [CHR 0x0A], [CHR 0x0B], [CHR 0x0C], [CHR 0x0D],
      [CHR 0x1C], [CHR 0x1D], [CHR 0x1E], [CHR 0x1F], [CHR 0x20],
      [CHR 0xC2, CHR 0x85], [CHR 0xC2, CHR 0xA0], [CHR 0xE1, CHR 0x9A, CHR 0x80],
      [CHR 0xE2, CHR 0x80, CHR 0x80], [CHR 0xE2, CHR 0x80, CHR 0x81],
      [CHR 0xE2, CHR 0x80, CHR 0x82], [CHR 0xE2, CHR 0x80, CHR 0x83],
      [CHR 0xE2, CHR 0x80, CHR 0x84], [CHR 0xE2, CHR 0x80, CHR 0x85],
      [CHR 0xE2, CHR 0x80, CHR 0x86], [CHR 0xE2, CHR 0x80, CHR 0x87],
      [CHR 0xE2, CHR 0x80, CHR 0x88], [CHR 0xE2, CHR 0x80, CHR 0x89],
      [CHR 0xE2, CHR 0x80, CHR 0x8A], [CHR 0xE2, CHR 0x80, CHR 0xA8],
      [CHR 0xE2, CHR 0x80, CHR 0xA9], [CHR 0xE2, CHR 0x80, CHR 0xAF],
      [CHR 0xE2, CHR 0x81, CHR 0x9F], [CHR 0xE3, CHR 0x80, CHR 0x80]]"

fun strip_leading :: "string list \<Rightarrow> string \<Rightarrow> string" where
  \<comment> \<open>removes from the start of a string every character whose bytes are in the list\<close>
  "strip_leading ws [] = []"
| "strip_leading ws (c # cs) =
     (case find (\<lambda>w. w \<noteq> [] \<and> take (length w) (c # cs) = w) ws of
        Some w \<Rightarrow> strip_leading ws (drop (length w - 1) cs)
      | None \<Rightarrow> c # cs)"

definition strip :: "string \<Rightarrow> string" where
  \<comment> \<open>the trailing characters are the leading ones of the reversed string, bytes reversed\<close>
  "strip s = rev (strip_leading (map rev whitespace) (rev (strip_leading whitespace s)))"

text \<open>The two variables of the enumerator: the list \<^verbatim>\<open>repos\<close> and the set \<^verbatim>\<open>seen\<close>.\<close>

type_synonym tracking = "repo list \<times> string set"

definition resolve :: "github \<Rightarrow> string \<Rightarrow> tracking \<Rightarrow> tracking outcome" where
  \<comment> \<open>\<^verbatim>\<open>repos.append(g.get_repo(repo_name)); seen.add(repo_name)\<close>\<close>
  "resolve g repo_name tr =
     (case get_repo g repo_name of
        Inl e \<Rightarrow> (tr, Some e)
      | Inr r \<Rightarrow> ((fst tr @ [r], insert repo_name (snd tr)), None))"

fun for_repo_names :: "github \<Rightarrow> string list \<Rightarrow> tracking \<Rightarrow> tracking" where
  "for_repo_names g [] tr = tr"
| "for_repo_names g (entry # entries) tr =
     (let repo_name = strip entry in
      if repo_name \<noteq> [] \<and> CHR ''/'' \<in> set repo_name
      then for_repo_names g entries (fst (except_pass (resolve g repo_name tr)))
      else for_repo_names g entries tr)"

definition add_unseen :: "repo \<Rightarrow> tracking \<Rightarrow> tracking" where
  "add_unseen r tr =
     (if full_name r \<notin> snd tr then (fst tr @ [r], insert (full_name r) (snd tr)) else tr)"

fun for_repos :: "repo paginated \<Rightarrow> tracking \<Rightarrow> tracking outcome" where
  "for_repos Exhausted tr = (tr, None)"
| "for_repos (Fetch_failed e) tr = (tr, Some e)"
| "for_repos (Yield r rs) tr = for_repos rs (add_unseen r tr)"

fun for_orgs :: "org paginated \<Rightarrow> tracking \<Rightarrow> tracking outcome" where
  "for_orgs Exhausted tr = (tr, None)"
| "for_orgs (Fetch_failed e) tr = (tr, Some e)"
| "for_orgs (Yield og ogs) tr =
     (case org_get_repos og of
        Inl e \<Rightarrow> (tr, Some e)
      | Inr rs \<Rightarrow>
          (case for_repos rs tr of
             (tr', Some e) \<Rightarrow> (tr', Some e)
           | (tr', None) \<Rightarrow> for_orgs ogs tr'))"

definition discover_own :: "github \<Rightarrow> tracking \<Rightarrow> tracking outcome" where
  \<comment> \<open>the first \<^verbatim>\<open>try\<close> block of the discovery\<close>
  "discover_own g tr =
     (case auth_user_get_repos g of
        Inl e \<Rightarrow> (tr, Some e)
      | Inr rs \<Rightarrow> for_repos rs tr)"

definition discover_orgs :: "named_user \<Rightarrow> tracking \<Rightarrow> tracking outcome" where
  \<comment> \<open>the second \<^verbatim>\<open>try\<close> block of the discovery\<close>
  "discover_orgs user tr =
     (case get_orgs user of
        Inl e \<Rightarrow> (tr, Some e)
      | Inr ogs \<Rightarrow> for_orgs ogs tr)"

definition get_repos_to_track :: "string \<Rightarrow> github \<Rightarrow> named_user \<Rightarrow> error + repo list" where
  \<comment> \<open>the first argument is the module constant \<^verbatim>\<open>REPOS_TO_TRACK\<close>\<close>
  "get_repos_to_track REPOS_TO_TRACK g user =
     (let tr = ([], {}) in
      if REPOS_TO_TRACK \<noteq> []
      then Inr (fst (for_repo_names g (split CHR '','' REPOS_TO_TRACK) tr))
      else
        (let tr = fst (except_pass (discover_own g tr));
             tr = fst (except_pass (discover_orgs user tr))
         in Inr (fst tr)))"


section \<open>Metrics snapshot assembler\<close>

datatype period = Today | Week | Month | Quarter | Year

definition periods :: "datetime \<Rightarrow> (period \<times> datetime \<times> datetime) list" where
  \<comment> \<open>the dictionary \<^verbatim>\<open>periods\<close>, in the order of its keys\<close>
  "periods now =
     [(Today, (midnight (now - timedelta_days 1), now)),
      (Week, (now - timedelta_days 7, now)),
      (Month, (now - timedelta_days 30, now)),
      (Quarter, (now - timedelta_days 90, now)),
      (Year, (now - timedelta_days 365, now))]"

datatype stat_key = Commits | Additions | Deletions | Files_changed

fun get_key :: "stat_key \<Rightarrow> 'a stats_scheme \<Rightarrow> nat" where
  \<comment> \<open>\<^verbatim>\<open>stats[key]\<close>\<close>
  "get_key Commits st = commits st"
| "get_key Additions st = additions st"
| "get_key Deletions st = deletions st"
| "get_key Files_changed st = files_changed st"

fun add_to_key :: "stat_key \<Rightarrow> nat \<Rightarrow> stats \<Rightarrow> stats" where
  \<comment> \<open>\<^verbatim>\<open>stats[key] += n\<close>\<close>
  "add_to_key Commits n st = st\<lparr>commits := commits st + n\<rparr>"
| "add_to_key Additions n st = st\<lparr>additions := additions st + n\<rparr>"
| "add_to_key Deletions n st = st\<lparr>deletions := deletions st + n\<rparr>"
| "add_to_key Files_changed n st = st\<lparr>files_changed := files_changed st + n\<rparr>"

record repo_data =
  rd_name :: string
  rd_full_name :: string
  rd_url :: string
  rd_description :: "string option"
  rd_stars :: nat
  rd_forks :: nat
  rd_periods :: "period \<rightharpoonup> stats"

record day_totals =
  day_commits :: nat
  day_additions :: nat
  day_deletions :: nat

record top_repo =
  top_name :: string
  top_url :: string
  top_commits :: nat
  top_additions :: nat
  top_deletions :: nat

record meta_data =
  updated_at :: datetime
  username :: string
  generated_by :: string

text \<open>
  The snapshot. \<^verbatim>\<open>summary\<close> is built with one entry for each of the five periods, so it is
  a total function on them; \<^verbatim>\<open>repos\<close> keeps the order in which its keys were first
  inserted, which the ranking reads; \<^verbatim>\<open>daily\<close> and \<^verbatim>\<open>languages\<close> are dictionaries that
  start empty and give a missing key the value zero when it is first added to.
\<close>

record results =
  meta :: meta_data
  summary :: "period \<Rightarrow> stats"
  repos :: "(string \<times> repo_data) list"
  daily :: "date \<rightharpoonup> day_totals"
  languages :: "string \<rightharpoonup> nat"
  top_repos :: "top_repo list"

definition add_to_summary :: "period \<Rightarrow> stats \<Rightarrow> results \<Rightarrow> results" where
  \<comment> \<open>the loop over the four keys\<close>
  "add_to_summary p st res =
     fold (\<lambda>key res. res\<lparr>summary := (summary res)(p := add_to_key key (get_key key st) (summary res p))\<rparr>)
       [Commits, Additions, Deletions, Files_changed] res"

text \<open>
  The loop over the periods, for one repository. Its variables are the record of the
  repository, the snapshot and the flag \<^verbatim>\<open>has_activity\<close>.
\<close>

fun for_periods :: "repo \<Rightarrow> string \<Rightarrow> (period \<times> datetime \<times> datetime) list \<Rightarrow>
    repo_data \<times> results \<times> bool \<Rightarrow> error + repo_data \<times> results \<times> bool" where
  "for_periods r user [] s = Inr s"
| "for_periods r user ((period_name, since, until) # ps) (rd, res, has_activity) =
     (case get_commit_stats r user since until of
        Inl e \<Rightarrow> Inl e
      | Inr st \<Rightarrow>
          for_periods r user ps
            (rd\<lparr>rd_periods := (rd_periods rd)(period_name \<mapsto> st)\<rparr>,
             add_to_summary period_name st res,
             (if commits st > 0 then True else has_activity)))"

definition zero_day :: day_totals where
  "zero_day = \<lparr>day_commits = 0, day_additions = 0, day_deletions = 0\<rparr>"

definition add_day :: "daily_entry \<Rightarrow> (date \<rightharpoonup> day_totals) \<Rightarrow> (date \<rightharpoonup> day_totals)" where
  \<comment> \<open>the three additions into \<^verbatim>\<open>results['daily'][date]\<close>\<close>
  "add_day d m =
     (let t = (case m (date d) of None \<Rightarrow> zero_day | Some t \<Rightarrow> t)
      in m(date d \<mapsto> \<lparr>day_commits = day_commits t + commits d,
                       day_additions = day_additions t + additions d,
                       day_deletions = day_deletions t + deletions d\<rparr>))"

definition add_language :: "string \<times> nat \<Rightarrow> (string \<rightharpoonup> nat) \<Rightarrow> (string \<rightharpoonup> nat)" where
  \<comment> \<open>\<^verbatim>\<open>results['languages'][lang] += bytes_count\<close>\<close>
  "add_language l m =
     m(fst l \<mapsto> (case m (fst l) of None \<Rightarrow> 0 | Some n \<Rightarrow> n) + snd l)"

definition process_repo :: "string \<Rightarrow> datetime \<Rightarrow> datetime \<Rightarrow> repo \<Rightarrow> results \<Rightarrow> error + results" where
  \<comment> \<open>the body of the loop over the repositories; \<^verbatim>\<open>now\<close> is the reading taken at the start
      of the run, \<^verbatim>\<open>now_daily\<close> the one that \<^verbatim>\<open>get_daily_stats\<close> takes in this iteration\<close>
  "process_repo user now now_daily r res =
     (let repo_data = \<lparr>rd_name = name r, rd_full_name = full_name r, rd_url = html_url r,
                       rd_description = description r, rd_stars = stargazers_count r,
                       rd_forks = forks_count r, rd_periods = Map.empty\<rparr>
      in case for_periods r user (periods now) (repo_data, res, False) of
           Inl e \<Rightarrow> Inl e
         | Inr (repo_data, res, has_activity) \<Rightarrow>
             (case (if has_activity
                    then (case get_daily_stats now_daily r user 90 of
                            Inl e \<Rightarrow> Inl e
                          | Inr ds \<Rightarrow> Inr (res\<lparr>daily := fold add_day ds (daily res)\<rparr>))
                    else Inr res) of
                Inl e \<Rightarrow> Inl e
              | Inr res \<Rightarrow>
                  (case get_language_stats r of
                     Inl e \<Rightarrow> Inl e
                   | Inr langs \<Rightarrow>
                       (let res = res\<lparr>languages := fold add_language langs (languages res)\<rparr>
                        in if has_activity
                           then Inr (res\<lparr>repos := AList.update (full_name r) repo_data (repos res)\<rparr>)
                           else Inr res))))"

text \<open>
  The loop over the tracked repositories. \<^verbatim>\<open>clock i\<close> is the reading of the clock while the
  repository at position \<^verbatim>\<open>i\<close> is processed.
\<close>

fun for_tracked :: "string \<Rightarrow> datetime \<Rightarrow> (nat \<Rightarrow> clock_reading) \<Rightarrow> nat \<Rightarrow> repo list \<Rightarrow> results \<Rightarrow>
    error + results" where
  "for_tracked user now clock i [] res = Inr res"
| "for_tracked user now clock i (r # rs) res =
     (case process_repo user now (reading (clock i)) r res of
        Inl e \<Rightarrow> Inl e
      | Inr res' \<Rightarrow> for_tracked user now clock (Suc i) rs res')"

fun year_entries :: "(string \<times> repo_data) list \<Rightarrow> error + top_repo list" where
  \<comment> \<open>the list comprehension of the ranking; a missing key would raise\<close>
  "year_entries [] = Inr []"
| "year_entries ((full, data) # items) =
     (case rd_periods data Year of
        None \<Rightarrow> Inl KeyError
      | Some y \<Rightarrow>
          (case year_entries items of
             Inl e \<Rightarrow> Inl e
           | Inr rest \<Rightarrow>
               Inr (if commits y > 0
                    then \<lparr>top_name = rd_full_name data, top_url = rd_url data,
                          top_commits = commits y, top_additions = additions y,
                          top_deletions = deletions y\<rparr> # rest
                    else rest)))"

definition sorted_reverse :: "('a \<Rightarrow> 'k::linorder) \<Rightarrow> 'a list \<Rightarrow> 'a list" where
  \<comment> \<open>\<^verbatim>\<open>sorted(xs, key=f, reverse=True)\<close>: the stable sort of the reversed list, reversed\<close>
  "sorted_reverse f xs = rev (sort_key f (rev xs))"

definition collect_all_metrics ::
    "string \<Rightarrow> string \<Rightarrow> github \<Rightarrow> datetime \<Rightarrow> (nat \<Rightarrow> clock_reading) \<Rightarrow> error + results" where
  \<comment> \<open>the first two arguments are the module constants \<^verbatim>\<open>GH_USERNAME\<close> and
      \<^verbatim>\<open>REPOS_TO_TRACK\<close>, the third is the client \<^verbatim>\<open>Github(GH_TOKEN)\<close>\<close>
  "collect_all_metrics GH_USERNAME REPOS_TO_TRACK g now clock =
     (case get_user g GH_USERNAME of
        Inl e \<Rightarrow> Inl e
      | Inr user \<Rightarrow>
          (let res = \<lparr>meta = \<lparr>updated_at = now, username = GH_USERNAME,
                              generated_by = ''GitHub Metrics Dashboard''\<rparr>,
                      summary = (\<lambda>period. zero_stats),
                      repos = [], daily = Map.empty, languages = Map.empty, top_repos = []\<rparr>
           in case get_repos_to_track REPOS_TO_TRACK g user of
                Inl e \<Rightarrow> Inl e
              | Inr tracked \<Rightarrow>
                  (case for_tracked GH_USERNAME now clock 0 tracked res of
                     Inl e \<Rightarrow> Inl e
                   | Inr res \<Rightarrow>
                       (case year_entries (repos res) of
                          Inl e \<Rightarrow> Inl e
                        | Inr entries \<Rightarrow>
                            Inr (res\<lparr>top_repos := take 10 (sorted_reverse top_additions entries)\<rparr>)))))"


section \<open>Floating point numbers of the renderer\<close>

text \<open>
  The renderer divides integers and formats the quotients. Python computes them in binary
  floating point (IEEE 754 binary64, round to nearest, ties to even). A finite float is
  modelled as the rational number it denotes; \<^verbatim>\<open>fl\<close> rounds a rational to the nearest float
  with a significand of 53 bits. The exponent is not bounded in the model: overflow and
  subnormal numbers are outside it.
\<close>

type_synonym float = rat

definition round_half_even :: "rat \<Rightarrow> int" where
  "round_half_even q =
     (let f = \<lfloor>q\<rfloor>; d = q - of_int f
      in if d < 1 / 2 then f
         else if 1 / 2 < d then f + 1
         else if even f then f else f + 1)"

definition binade :: "rat \<Rightarrow> int" where
  \<comment> \<open>for \<^verbatim>\<open>x > 0\<close>, the exponent \<^verbatim>\<open>k\<close> with \<^verbatim>\<open>2^k \<le> x < 2^(k+1)\<close>\<close>
  "binade x =
     (let (a, b) = quotient_of x; k = bitlen a - bitlen b
      in if 2 powi k \<le> x then k else k - 1)"

definition fl :: "rat \<Rightarrow> float" where
  "fl x =
     (if x = 0 then 0
      else (let e = binade \<bar>x\<bar> - 52
            in sgn x * of_int (round_half_even (\<bar>x\<bar> / 2 powi e)) * 2 powi e))"

definition truediv :: "int \<Rightarrow> int \<Rightarrow> error + float" where
  \<comment> \<open>\<^verbatim>\<open>a / b\<close> on integers: the correctly rounded quotient\<close>
  "truediv a b = (if b = 0 then Inl ZeroDivisionError else Inr (fl (of_int a / of_int b)))"

definition fmul :: "float \<Rightarrow> float \<Rightarrow> float" where
  "fmul x y = fl (x * y)"

definition round1 :: "float \<Rightarrow> float" where
  \<comment> \<open>\<^verbatim>\<open>round(x, 1)\<close>: the float nearest to the decimal with one digit after the point that
      is nearest to \<^verbatim>\<open>x\<close>, ties to even\<close>
  "round1 x = fl (of_int (round_half_even (x * 10)) / 10)"

section \<open>Dashboard renderer\<close>

definition digit_char :: "nat \<Rightarrow> char" where
  "digit_char d = char_of (48 + d)"

fun str_nat :: "nat \<Rightarrow> string" where
  "str_nat n = (if n < 10 then [digit_char n] else str_nat (n div 10) @ [digit_char (n mod 10)])"

declare str_nat.simps [simp del]

definition str :: "int \<Rightarrow> string" where
  \<comment> \<open>\<^verbatim>\<open>str(n)\<close> of an integer, also what an f-string prints for it\<close>
  "str n = (if n < 0 then CHR ''-'' # str_nat (nat (- n)) else str_nat (nat n))"

definition format_1f :: "float \<Rightarrow> string" where
  \<comment> \<open>the format \<^verbatim>\<open>.1f\<close> of a float that is not negative: the nearest decimal with one
      digit after the point, ties to even\<close>
  "format_1f x =
     (let t = round_half_even (x * 10)
      in str (t div 10) @ ''.'' @ str (t mod 10))"

definition format_number :: "int \<Rightarrow> error + string" where
  "format_number n =
     (if n \<ge> 1000000 then
        (case truediv n 1000000 of Inl e \<Rightarrow> Inl e | Inr x \<Rightarrow> Inr (format_1f x @ ''M''))
      else if n \<ge> 1000 then
        (case truediv n 1000 of Inl e \<Rightarrow> Inl e | Inr x \<Rightarrow> Inr (format_1f x @ ''K''))
      else Inr (str n))"

text \<open>
  The snapshot as the renderer loads it, with the entries that the modelled functions read.
  \<^verbatim>\<open>languages\<close> is in the order of the file, which decides between languages of equal
  size. Python strings are modelled by their UTF-8 bytes, the form in which the output is
  written.
\<close>

record metrics =
  m_updated_at :: string
  m_username :: string
  m_summary :: "period \<Rightarrow> stats"
  m_top_repos :: "top_repo list"
  m_languages :: "(string \<times> nat) list"

record lang_entry =
  lang_name :: string
  lang_bytes :: nat
  percent :: float

fun lang_entries :: "nat \<Rightarrow> (string \<times> nat) list \<Rightarrow> error + lang_entry list" where
  \<comment> \<open>the list comprehension of \<^verbatim>\<open>lang_data\<close>\<close>
  "lang_entries total_bytes [] = Inr []"
| "lang_entries total_bytes (l # ls) =
     (case truediv (int (snd l)) (int total_bytes) of
        Inl e \<Rightarrow> Inl e
      | Inr q \<Rightarrow>
          (case lang_entries total_bytes ls of
             Inl e \<Rightarrow> Inl e
           | Inr rest \<Rightarrow>
               Inr (\<lparr>lang_name = fst l, lang_bytes = snd l,
                     percent = round1 (fmul q 100)\<rparr> # rest)))"

definition lang_data :: "(string \<times> nat) list \<Rightarrow> error + lang_entry list" where
  \<comment> \<open>the three lines of \<^verbatim>\<open>generate_html_dashboard\<close> that compute \<^verbatim>\<open>lang_data\<close>\<close>
  "lang_data langs =
     (let total_bytes = (if langs \<noteq> [] then sum_list (map snd langs) else 1);
          sorted_langs = take 6 (sorted_reverse snd langs)
      in lang_entries total_bytes sorted_langs)"

definition nl :: string where
  "nl = [CHR 0x0A]"

definition middle_dot :: string where
  "middle_dot = [CHR 0xC2, CHR 0xB7]"

definition period_row :: "string \<Rightarrow> stats \<Rightarrow> error + string" where
  \<comment> \<open>a row of the summary table, without the end of the line\<close>
  "period_row label st =
     (case format_number (int (additions st)) of
        Inl e \<Rightarrow> Inl e
      | Inr a \<Rightarrow>
          (case format_number (int (deletions st)) of
             Inl e \<Rightarrow> Inl e
           | Inr d \<Rightarrow>
               (case format_number (int (additions st) - int (deletions st)) of
                  Inl e \<Rightarrow> Inl e
                | Inr n \<Rightarrow>
                    Inr (''| '' @ label @ '' | '' @ str (int (commits st)) @ '' | +'' @ a
                         @ '' | -'' @ d @ '' | '' @ n @ '' |''))))"

definition last_segment :: "string \<Rightarrow> string" where
  \<comment> \<open>\<^verbatim>\<open>name.split('/')[-1]\<close>; the split of a string is never empty\<close>
  "last_segment s = (case rev (split CHR ''/'' s) of w # ws \<Rightarrow> w | [] \<Rightarrow> [])"

fun for_top_repos :: "top_repo list \<Rightarrow> string \<Rightarrow> error + string" where
  "for_top_repos [] readme = Inr readme"
| "for_top_repos (r # rs) readme =
     (case format_number (int (top_additions r)) of
        Inl e \<Rightarrow> Inl e
      | Inr a \<Rightarrow>
          (case format_number (int (top_deletions r)) of
             Inl e \<Rightarrow> Inl e
           | Inr d \<Rightarrow>
               for_top_repos rs
                 (readme @ ''| ['' @ last_segment (top_name r) @ '']('' @ top_url r @ '') | ''
                    @ str (int (top_commits r)) @ '' | +'' @ a @ '' | -'' @ d @ '' |'' @ nl)))"

definition replace_char :: "char \<Rightarrow> char \<Rightarrow> string \<Rightarrow> string" where
  "replace_char old new s = map (\<lambda>c. if c = old then new else c) s"

definition readme_head :: "metrics \<Rightarrow> string \<Rightarrow> string \<Rightarrow> string \<Rightarrow> string \<Rightarrow> string" where
  \<comment> \<open>the f-string of \<^verbatim>\<open>generate_readme\<close>, given its four rows\<close>
  "readme_head m today week month year =
     (let updated = replace_char CHR ''T'' CHR '' '' (take 16 (m_updated_at m))
      in ''# '' @ [CHR 0xF0, CHR 0x9F, CHR 0x93, CHR 0x8A] @ '' Code Metrics Dashboard'' @ nl
         @ nl
         @ ''> **@'' @ m_username m @ ''** '' @ middle_dot @ '' Updated: '' @ updated
           @ '' UTC'' @ nl
         @ nl
         @ ''| Period | Commits | Additions | Deletions | Net |'' @ nl
         @ ''|--------|---------|-----------|-----------|-----|'' @ nl
         @ today @ nl
         @ week @ nl
         @ month @ nl
         @ year @ nl
         @ nl
         @ ''## Top Repositories'' @ nl
         @ nl
         @ ''| Repository | Commits | ++ | -- |'' @ nl
         @ ''|------------|---------|----|----|'' @ nl)"

definition readme_foot :: string where
  "readme_foot =
     nl @ ''---'' @ nl @ [CHR 0xF0, CHR 0x9F, CHR 0x94, CHR 0x97]
     @ '' [View Dashboard](../../) '' @ middle_dot @ '' ''
     @ [CHR 0xF0, CHR 0x9F, CHR 0xA4, CHR 0x96] @ '' Auto-updated daily'' @ nl"

definition generate_readme :: "metrics \<Rightarrow> error + string" where
  "generate_readme m =
     (case period_row ''Today'' (m_summary m Today) of
        Inl e \<Rightarrow> Inl e
      | Inr today \<Rightarrow>
     (case period_row ''Week'' (m_summary m Week) of
        Inl e \<Rightarrow> Inl e
      | Inr week \<Rightarrow>
     (case period_row ''Month'' (m_summary m Month) of
        Inl e \<Rightarrow> Inl e
      | Inr month \<Rightarrow>
     (case period_row ''Year'' (m_summary m Year) of
        Inl e \<Rightarrow> Inl e
      | Inr year \<Rightarrow>
     (case for_top_repos (take 10 (m_top_repos m)) (readme_head m today week month year) of
        Inl e \<Rightarrow> Inl e
      | Inr readme \<Rightarrow> Inr (readme @ readme_foot))))))"

section \<open>Notions used in the statements\<close>

text \<open>Adding two stats field by field, and comparing them field by field.\<close>

definition stats_add :: "stats \<Rightarrow> stats \<Rightarrow> stats" where
  "stats_add a b = \<lparr>commits = commits a + commits b, additions = additions a + additions b,
                    deletions = deletions a + deletions b,
                    files_changed = files_changed a + files_changed b\<rparr>"

definition stats_le :: "stats \<Rightarrow> stats \<Rightarrow> bool" where
  "stats_le a b \<longleftrightarrow> commits a \<le> commits b \<and> additions a \<le> additions b \<and>
                    deletions a \<le> deletions b \<and> files_changed a \<le> files_changed b"

text \<open>
  What the specification says a returned commit adds: one commit, its reported additions
  and deletions (zero if unavailable) and the number of files it touched (zero if
  unavailable). A commit whose completion raises adds what was read before the exception.
\<close>

definition raises :: "commit \<Rightarrow> bool" where
  "raises c \<longleftrightarrow> isl (commit_stats c) \<or> isl (commit_files c)"

definition reported :: "commit \<Rightarrow> stats" where
  "reported c =
     \<lparr>commits = 1,
      additions = (case commit_stats c of Inr (Some (a, d)) \<Rightarrow> a | _ \<Rightarrow> 0),
      deletions = (case commit_stats c of Inr (Some (a, d)) \<Rightarrow> d | _ \<Rightarrow> 0),
      files_changed = (case (commit_stats c, commit_files c) of
                         (Inr cs, Inr (Some fs)) \<Rightarrow> length fs | _ \<Rightarrow> 0)\<rparr>"

text \<open>
  The commits that the loop reaches: those that the listing yields before it ends or fails,
  up to and including the first one whose completion raises.
\<close>

fun processed :: "commit paginated \<Rightarrow> commit list" where
  "processed Exhausted = []"
| "processed (Fetch_failed e) = []"
| "processed (Yield c cs) = (if raises c then [c] else c # processed cs)"

definition accumulated :: "repo \<Rightarrow> string \<Rightarrow> datetime \<Rightarrow> datetime \<Rightarrow> stats" where
  \<comment> \<open>the dictionary \<^verbatim>\<open>stats\<close> as the \<^verbatim>\<open>try\<close> block leaves it, whether it raised or not\<close>
  "accumulated r author since until = fst (try_block r author since until zero_stats)"

text \<open>
  A window \<^verbatim>\<open>(since, until)\<close> is handed to the platform, which the specification reads as
  the half-open interval from \<^verbatim>\<open>since\<close> to \<^verbatim>\<open>until\<close>.
\<close>

definition in_window :: "datetime \<times> datetime \<Rightarrow> datetime \<Rightarrow> bool" where
  "in_window w t \<longleftrightarrow> fst w \<le> t \<and> t < snd w"

definition at_clock :: "date \<Rightarrow> int \<Rightarrow> int \<Rightarrow> datetime" where
  \<comment> \<open>the datetime on day \<^verbatim>\<open>d\<close> at \<^verbatim>\<open>h:m:00\<close>\<close>
  "at_clock d h m = d * us_per_day + (h * 60 + m) * us_per_minute"

definition window :: "datetime \<Rightarrow> period \<Rightarrow> datetime \<times> datetime" where
  \<comment> \<open>\<^verbatim>\<open>periods[p]\<close>\<close>
  "window now p = (case map_of (periods now) p of Some w \<Rightarrow> w | None \<Rightarrow> (now, now))"

definition day_entry :: "repo \<Rightarrow> string \<Rightarrow> datetime \<Rightarrow> int \<Rightarrow> daily_entry" where
  \<comment> \<open>the entry of the daily series for the day \<^verbatim>\<open>i\<close> days before \<^verbatim>\<open>now\<close>\<close>
  "day_entry r author now i =
     (let day_start = at_clock (strftime_date now - i) 0 0;
          st = accumulated r author day_start (at_clock (strftime_date now - i + 1) 0 0)
      in \<lparr>commits = commits st, additions = additions st, deletions = deletions st,
          files_changed = files_changed st, date = strftime_date now - i\<rparr>)"

definition window_fits :: "datetime \<Rightarrow> int \<Rightarrow> bool" where
  \<comment> \<open>the day \<^verbatim>\<open>days\<close> days before \<^verbatim>\<open>now\<close> is in the calendar, and \<^verbatim>\<open>now\<close> is before its last day\<close>
  "window_fits now days \<longleftrightarrow> min_day \<le> strftime_date now - days \<and> strftime_date now < max_day"

definition period_stats :: "string \<Rightarrow> datetime \<Rightarrow> repo \<Rightarrow> period \<Rightarrow> stats" where
  \<comment> \<open>the stats of a repository for a period: \<^verbatim>\<open>repo_data['periods'][p]\<close>\<close>
  "period_stats user now r p = accumulated r user (fst (window now p)) (snd (window now p))"

definition active :: "string \<Rightarrow> datetime \<Rightarrow> repo \<Rightarrow> bool" where
  \<comment> \<open>at least one commit in some period\<close>
  "active user now r \<longleftrightarrow>
     list_ex (\<lambda>p. commits (period_stats user now r p) > 0) [Today, Week, Month, Quarter, Year]"

definition repo_record :: "string \<Rightarrow> datetime \<Rightarrow> repo \<Rightarrow> repo_data" where
  \<comment> \<open>the detail record of a repository\<close>
  "repo_record user now r =
     \<lparr>rd_name = name r, rd_full_name = full_name r, rd_url = html_url r,
      rd_description = description r, rd_stars = stargazers_count r,
      rd_forks = forks_count r, rd_periods = (\<lambda>p. Some (period_stats user now r p))\<rparr>"

definition reported_languages :: "repo \<Rightarrow> (string \<times> nat) list" where
  \<comment> \<open>the language bytes that the platform reports for a repository; none on a failure\<close>
  "reported_languages r = (case get_languages r of Inl e \<Rightarrow> [] | Inr langs \<Rightarrow> langs)"

text \<open>
  The handles whose records the detail mapping holds, in the order of the mapping: an
  assignment to a key that is present replaces the value and keeps the position, so a full
  identifier stands where its first active handle put it, with its last active handle.
\<close>

definition stored :: "string \<Rightarrow> datetime \<Rightarrow> repo list \<Rightarrow> repo list" where
  "stored user now rs =
     map snd (fold (\<lambda>r acc. if active user now r then AList.update (full_name r) r acc else acc)
                rs [])"

definition first_occurrences :: "'a list \<Rightarrow> 'a list" where
  \<comment> \<open>the list without the repetitions of an element that came before\<close>
  "first_occurrences xs = rev (remdups (rev xs))"

definition top_of :: "string \<Rightarrow> datetime \<Rightarrow> repo \<Rightarrow> top_repo" where
  \<comment> \<open>the entry of the ranking for a repository\<close>
  "top_of user now r =
     \<lparr>top_name = full_name r, top_url = html_url r,
      top_commits = commits (period_stats user now r Year),
      top_additions = additions (period_stats user now r Year),
      top_deletions = deletions (period_stats user now r Year)\<rparr>"

text \<open>The snapshot before the loop over the repositories.\<close>

definition init_results :: "string \<Rightarrow> datetime \<Rightarrow> results" where
  "init_results U now = \<lparr>meta = \<lparr>updated_at = now, username = U,
                              generated_by = ''GitHub Metrics Dashboard''\<rparr>,
                      summary = (\<lambda>period. zero_stats),
                      repos = [], daily = Map.empty, languages = Map.empty, top_repos = []\<rparr>"

text \<open>The invariant of the discovery: no full identifier twice, and every one of them seen.\<close>

definition tracking_inv :: "tracking \<Rightarrow> bool" where
  "tracking_inv tr \<longleftrightarrow> distinct (map full_name (fst tr)) \<and> full_name ` set (fst tr) \<subseteq> snd tr"

text \<open>The relative error bound of rounding to a float: half a unit in the last place.\<close>

definition ulp_half :: rat where
  "ulp_half = 1 / 2 ^ 53"

section \<open>Concrete inputs\<close>

text \<open>
  A repository with two commits, the second without line and file counts, whose listing
  fails on the following page; and an empty repository, whose commit query raises.
\<close>

definition demo_commits :: "commit paginated" where
  "demo_commits =
     Yield \<lparr>commit_stats = Inr (Some (10, 2)), commit_files = Inr (Some [''a.py'', ''b.py''])\<rparr>
       (Yield \<lparr>commit_stats = Inr None, commit_files = Inr None\<rparr>
          (Fetch_failed ApiError))"

definition demo_repo :: repo where
  "demo_repo =
     \<lparr>name = ''me'', full_name = ''djok/me'', html_url = ''https://github.com/djok/me'',
      description = None, stargazers_count = 3, forks_count = 1,
      get_commits = (\<lambda>author since until. Inr demo_commits),
      get_languages = Inr [(''Python'', 800), (''JavaScript'', 200)]\<rparr>"

definition quiet_repo :: repo where
  "quiet_repo =
     \<lparr>name = ''quiet'', full_name = ''djok/quiet'', html_url = ''https://github.com/djok/quiet'',
      description = Some ''empty'', stargazers_count = 0, forks_count = 0,
      get_commits = (\<lambda>author since until. Inl ApiError),
      get_languages = Inr [(''Python'', 50)]\<rparr>"

definition demo_user :: named_user where
  "demo_user = \<lparr>get_orgs = Inr (Yield \<lparr>org_get_repos = Inr (Yield quiet_repo Exhausted)\<rparr> Exhausted)\<rparr>"

definition demo_github :: github where
  "demo_github =
     \<lparr>get_repo = (\<lambda>repo_name. if repo_name = ''djok/me'' then Inr demo_repo
                              else if repo_name = ''djok/quiet'' then Inr quiet_repo
                              else Inl ApiError),
      get_user = (\<lambda>login. if login = ''djok'' then Inr demo_user else Inl ApiError),
      auth_user_get_repos = Inr (Yield demo_repo (Yield quiet_repo (Yield demo_repo Exhausted)))\<rparr>"

text \<open>A run at 23:00 on day 739000, which is 2024-04-24.\<close>

definition demo_now :: datetime where
  "demo_now = at_clock 739000 23 0"

definition demo_clock :: "nat \<Rightarrow> clock_reading" where
  "demo_clock i = Abs_clock_reading demo_now"

text \<open>A loaded snapshot with the summary of the month of the end-to-end scenario.\<close>

definition demo_metrics :: metrics where
  "demo_metrics =
     \<lparr>m_updated_at = ''2026-11-04T23:00:12.345678'', m_username = ''djok'',
      m_summary = (\<lambda>p. if p = Month
                          then \<lparr>commits = 12, additions = 340, deletions = 55, files_changed = 8\<rparr>
                          else zero_stats),
      m_top_repos = [\<lparr>top_name = ''djok/me'', top_url = ''https://github.com/djok/me'',
                      top_commits = 12, top_additions = 340, top_deletions = 55\<rparr>],
      m_languages = [(''Python'', 800), (''JavaScript'', 200)]\<rparr>"

section \<open>Properties of the commit statistics accumulator\<close>

lemma get_commit_stats_Inr:
  "get_commit_stats r author since until = Inr (accumulated r author since until)"
  by (simp add: get_commit_stats_def accumulated_def return_state_def except_pass_def
      split: prod.splits option.splits)

lemma count_commit_reported: "fst (count_commit c st) = stats_add st (reported c)"
  by (cases st) (auto simp: count_commit_def stats_add_def reported_def Let_def
      split: sum.splits option.splits prod.splits)

lemma count_commit_raises: "snd (count_commit c st) \<noteq> None \<longleftrightarrow> raises c"
  by (auto simp: count_commit_def raises_def Let_def split: sum.splits option.splits prod.splits)

lemma for_commits_processed:
  "fst (for_commits cs st) = fold (\<lambda>c acc. stats_add acc (reported c)) (processed cs) st"
proof (induction cs arbitrary: st)
  case (Yield c cs)
  obtain st' x where cc: "count_commit c st = (st', x)" by (cases "count_commit c st")
  have s: "st' = stats_add st (reported c)" using count_commit_reported[of c st] cc by simp
  have r: "x \<noteq> None \<longleftrightarrow> raises c" using count_commit_raises[of c st] cc by simp
  show ?case using Yield cc s r by (cases x) auto
qed simp_all

lemma stats_le_refl: "stats_le a a"
  by (simp add: stats_le_def)

lemma stats_le_add: "stats_le a (stats_add a b)"
  by (simp add: stats_le_def stats_add_def)

lemma stats_le_trans: "stats_le a b \<Longrightarrow> stats_le b c \<Longrightarrow> stats_le a c"
  by (auto simp: stats_le_def)

lemma fold_stats_le: "stats_le st (fold (\<lambda>c acc. stats_add acc (f c)) cs st)"
  by (induction cs arbitrary: st) (auto intro: stats_le_refl stats_le_trans stats_le_add)

lemma fold_commits_count:
  "commits (fold (\<lambda>c acc. stats_add acc (reported c)) cs st) = commits st + length cs"
  by (induction cs arbitrary: st) (auto simp: stats_add_def reported_def)

lemma accumulated_zero:
  "commits (accumulated r a s u) = 0 \<Longrightarrow> accumulated r a s u = zero_stats"
  by (auto simp: accumulated_def try_block_def for_commits_processed fold_commits_count
      split: sum.splits)

section \<open>Properties of the time windows and of the daily series\<close>

lemma map_of_periods: "map_of (periods now) p = Some (window now p)"
  by (cases p) (simp_all add: window_def periods_def)

lemma midnight_minus_days:
  "midnight (now - timedelta_days i) = (strftime_date now - i) * us_per_day"
proof -
  have "(now - i * us_per_day) div us_per_day = now div us_per_day - i"
    by (simp add: us_per_day_def)
  then show ?thesis by (simp add: midnight_def timedelta_days_def strftime_date_def)
qed

lemma strftime_date_bounds:
  "strftime_date t * us_per_day \<le> t" "t < (strftime_date t + 1) * us_per_day"
  by (simp_all add: strftime_date_def us_per_day_def)

lemma today_window:
  "window now Today = (at_clock (strftime_date now - 1) 0 0, now)"
  by (simp add: window_def periods_def midnight_minus_days at_clock_def)

lemma valid_datetime_iff:
  "valid_datetime t \<longleftrightarrow> min_day \<le> strftime_date t \<and> strftime_date t \<le> max_day"
proof -
  have a: "strftime_date t * us_per_day \<le> t" and b: "t < (strftime_date t + 1) * us_per_day"
    by (rule strftime_date_bounds)+
  have p: "0 < us_per_day" by (simp add: us_per_day_def)
  show ?thesis
  proof
    assume v: "valid_datetime t"
    have "min_day * us_per_day < (strftime_date t + 1) * us_per_day"
      using v b by (simp add: valid_datetime_def)
    then have 1: "min_day < strftime_date t + 1" using p by (simp add: mult_less_cancel_right)
    have "strftime_date t * us_per_day < (max_day + 1) * us_per_day"
      using v a by (simp add: valid_datetime_def)
    then have 2: "strftime_date t < max_day + 1" using p by (simp add: mult_less_cancel_right)
    show "min_day \<le> strftime_date t \<and> strftime_date t \<le> max_day" using 1 2 by simp
  next
    assume d: "min_day \<le> strftime_date t \<and> strftime_date t \<le> max_day"
    have "min_day * us_per_day \<le> strftime_date t * us_per_day"
      using d p by (intro mult_right_mono) auto
    moreover have "(strftime_date t + 1) * us_per_day \<le> (max_day + 1) * us_per_day"
      using d p by (intro mult_right_mono) auto
    ultimately show "valid_datetime t" using a b by (simp add: valid_datetime_def)
  qed
qed

lemma strftime_date_minus: "strftime_date (now - i * us_per_day) = strftime_date now - i"
  by (simp add: strftime_date_def us_per_day_def)

lemma strftime_date_day: "strftime_date (d * us_per_day) = d"
  by (simp add: strftime_date_def us_per_day_def)

lemma for_offsets_eq:
  assumes "\<forall>i \<in> set offsets. 0 \<le> i \<and> min_day \<le> strftime_date now - i"
    and "strftime_date now < max_day"
  shows "for_offsets r author now offsets acc = Inr (acc @ map (day_entry r author now) offsets)"
  using assms(1)
proof (induction offsets arbitrary: acc)
  case (Cons i offsets)
  have i: "0 \<le> i" "min_day \<le> strftime_date now - i" using Cons.prems by auto
  have "i \<le> 999999999" using i assms(2) by (simp add: min_day_def max_day_def)
  then have td: "timedelta i = Inr (i * us_per_day)"
    using i(1) by (simp add: timedelta_def timedelta_days_def)
  have "valid_datetime (now - i * us_per_day)"
    unfolding valid_datetime_iff strftime_date_minus using i assms(2) by simp
  then have sub: "datetime_plus now (- (i * us_per_day)) = Inr (now - i * us_per_day)"
    by (simp add: datetime_plus_def)
  have m: "midnight (now - i * us_per_day) = (strftime_date now - i) * us_per_day"
    using midnight_minus_days[of now i] by (simp add: timedelta_days_def)
  have e: "(strftime_date now - i) * us_per_day + timedelta_days 1
           = (strftime_date now - i + 1) * us_per_day"
    by (simp add: timedelta_days_def algebra_simps)
  have "valid_datetime ((strftime_date now - i + 1) * us_per_day)"
    unfolding valid_datetime_iff strftime_date_day using i assms(2) by simp
  then have add: "datetime_plus ((strftime_date now - i) * us_per_day) (timedelta_days 1)
                  = Inr ((strftime_date now - i + 1) * us_per_day)"
    by (simp add: datetime_plus_def e)
  have rest: "\<forall>i \<in> set offsets. 0 \<le> i \<and> min_day \<le> strftime_date now - i"
    using Cons.prems by simp
  show ?case
    by (simp add: td sub m add get_commit_stats_Inr Cons.IH[OF rest] day_entry_def Let_def
        strftime_date_day)
       (simp add: at_clock_def)
qed simp

lemma get_daily_stats_eq:
  assumes "window_fits now days"
  shows "get_daily_stats now r author days
         = Inr (map (day_entry r author now) (py_range_down days))"
proof -
  have "\<forall>i \<in> set (py_range_down days). 0 \<le> i \<and> min_day \<le> strftime_date now - i"
    using assms by (auto simp: py_range_down_def window_fits_def)
  then show ?thesis
    using assms by (simp add: get_daily_stats_def for_offsets_eq window_fits_def)
qed

lemma py_range_down_first: "0 \<le> n \<Longrightarrow> py_range_down n = n # py_range_down (n - 1)"
  by (simp add: py_range_down_def upto_rec2)

lemma get_daily_stats_overflow:
  assumes "0 \<le> N" and "strftime_date now - N < min_day"
  shows "get_daily_stats now r author N = Inl OverflowError"
proof -
  have first: "py_range_down N = N # py_range_down (N - 1)"
    using assms(1) by (rule py_range_down_first)
  show ?thesis
  proof (cases "N \<le> 999999999")
    case False
    then have "timedelta N = Inl OverflowError" by (simp add: timedelta_def)
    then show ?thesis by (simp add: get_daily_stats_def first)
  next
    case True
    then have td: "timedelta N = Inr (N * us_per_day)"
      using assms(1) by (simp add: timedelta_def timedelta_days_def)
    have "\<not> valid_datetime (now - N * us_per_day)"
      unfolding valid_datetime_iff strftime_date_minus using assms(2) by simp
    then have "datetime_plus now (- (N * us_per_day)) = Inl OverflowError"
      by (simp add: datetime_plus_def)
    then show ?thesis by (simp add: get_daily_stats_def first td)
  qed
qed

lemma reading_fits: "window_fits (reading c) 90"
proof -
  have r: "719163 * us_per_day \<le> reading c" "reading c < max_day * us_per_day"
    using reading[of c] by auto
  have b: "reading c < (strftime_date (reading c) + 1) * us_per_day"
    by (rule strftime_date_bounds)
  have a: "strftime_date (reading c) * us_per_day \<le> reading c"
    by (rule strftime_date_bounds)
  have p: "0 < us_per_day" by (simp add: us_per_day_def)
  have "719163 * us_per_day < (strftime_date (reading c) + 1) * us_per_day"
    using r(1) b by simp
  then have 1: "719163 < strftime_date (reading c) + 1" using p by (simp add: mult_less_cancel_right)
  have "strftime_date (reading c) * us_per_day < max_day * us_per_day"
    using r(2) a by simp
  then have 2: "strftime_date (reading c) < max_day" using p by (simp add: mult_less_cancel_right)
  show ?thesis using 1 2 by (simp add: window_fits_def min_day_def)
qed

lemma length_py_range_down: "0 \<le> n \<Longrightarrow> length (py_range_down n) = nat n + 1"
  by (simp add: py_range_down_def)

lemma nth_py_range_down:
  assumes "k < length (py_range_down n)"
  shows "py_range_down n ! k = n - int k"
proof -
  have l: "length [0..n] = nat (n + 1)" by simp
  from assms have k: "k < nat (n + 1)" by (simp add: py_range_down_def)
  then have "rev [0..n] ! k = [0..n] ! (nat (n + 1) - Suc k)"
    by (simp add: rev_nth)
  also have "\<dots> = 0 + int (nat (n + 1) - Suc k)"
    using k by (intro nth_upto) auto
  also have "\<dots> = n - int k" using k by auto
  finally show ?thesis by (simp add: py_range_down_def)
qed

lemma dates_daily:
  assumes "0 \<le> n"
  shows "map date (map (day_entry r author now) (py_range_down n))
         = [strftime_date now - n .. strftime_date now]"
proof (rule nth_equalityI)
  show "length (map date (map (day_entry r author now) (py_range_down n)))
        = length [strftime_date now - n .. strftime_date now]"
    using assms by (simp add: py_range_down_def)
next
  fix k assume "k < length (map date (map (day_entry r author now) (py_range_down n)))"
  then have k: "k < length (py_range_down n)" by simp
  then have k': "int k \<le> n" using assms by (simp add: py_range_down_def)
  have "map date (map (day_entry r author now) (py_range_down n)) ! k
        = strftime_date now - (n - int k)"
    using k by (simp add: nth_py_range_down day_entry_def Let_def)
  also have "\<dots> = [strftime_date now - n .. strftime_date now] ! k"
    using k' by (subst nth_upto) auto
  finally show "map date (map (day_entry r author now) (py_range_down n)) ! k
        = [strftime_date now - n .. strftime_date now] ! k" .
qed

lemma add_to_summary_eq:
  "add_to_summary p st res = res\<lparr>summary := (summary res)(p := stats_add (summary res p) st)\<rparr>"
proof -
  have u: "\<And>(s::stats) a b c d. s\<lparr>commits := a, additions := b, deletions := c, files_changed := d\<rparr>
      = \<lparr>commits = a, additions = b, deletions = c, files_changed = d\<rparr>"
    by simp
  show ?thesis
    by (cases res) (simp add: add_to_summary_def stats_add_def u)
qed

lemma for_periods_eq:
  "for_periods r user (periods now) (rd, res, False) =
     Inr (rd\<lparr>rd_periods := rd_periods rd ++ (\<lambda>p. Some (period_stats user now r p))\<rparr>,
          res\<lparr>summary := (\<lambda>p. stats_add (summary res p) (period_stats user now r p))\<rparr>,
          active user now r)"
proof -
  have w: "\<And>p. window now p = (fst (window now p), snd (window now p))" by simp
  have 1: "rd_periods rd ++ (\<lambda>p. Some (period_stats user now r p)) =
        (rd_periods rd)(Today \<mapsto> period_stats user now r Today, Week \<mapsto> period_stats user now r Week,
           Month \<mapsto> period_stats user now r Month, Quarter \<mapsto> period_stats user now r Quarter,
           Year \<mapsto> period_stats user now r Year)"
  proof (rule ext)
    fix x show "(rd_periods rd ++ (\<lambda>p. Some (period_stats user now r p))) x =
        ((rd_periods rd)(Today \<mapsto> period_stats user now r Today, Week \<mapsto> period_stats user now r Week,
           Month \<mapsto> period_stats user now r Month, Quarter \<mapsto> period_stats user now r Quarter,
           Year \<mapsto> period_stats user now r Year)) x"
      by (cases x) (simp_all add: map_add_def)
  qed
  have 2: "(\<lambda>p. stats_add (summary res p) (period_stats user now r p)) =
        (summary res)(Today := stats_add (summary res Today) (period_stats user now r Today),
           Week := stats_add (summary res Week) (period_stats user now r Week),
           Month := stats_add (summary res Month) (period_stats user now r Month),
           Quarter := stats_add (summary res Quarter) (period_stats user now r Quarter),
           Year := stats_add (summary res Year) (period_stats user now r Year))"
  proof (rule ext)
    fix x show "stats_add (summary res x) (period_stats user now r x) =
        ((summary res)(Today := stats_add (summary res Today) (period_stats user now r Today),
           Week := stats_add (summary res Week) (period_stats user now r Week),
           Month := stats_add (summary res Month) (period_stats user now r Month),
           Quarter := stats_add (summary res Quarter) (period_stats user now r Quarter),
           Year := stats_add (summary res Year) (period_stats user now r Year))) x"
      by (cases x) simp_all
  qed
  show ?thesis
    unfolding 1 2
    by (simp add: periods_def get_commit_stats_Inr add_to_summary_eq period_stats_def window_def
        active_def)
qed

section \<open>Properties of the loop over the repositories\<close>


lemma process_repo_eq:
  "window_fits nd 90 \<Longrightarrow> process_repo user now nd r res =
     Inr (res\<lparr>summary := (\<lambda>p. stats_add (summary res p) (period_stats user now r p)),
              daily := (if active user now r
                        then fold add_day (map (day_entry r user nd) (py_range_down 90)) (daily res)
                        else daily res),
              languages := fold add_language (reported_languages r) (languages res),
              repos := (if active user now r
                        then AList.update (full_name r) (repo_record user now r) (repos res)
                        else repos res)\<rparr>)"
  by (cases res)
     (simp add: process_repo_def for_periods_eq get_daily_stats_eq get_language_stats_def
        reported_languages_def repo_record_def split: sum.splits)


lemma for_tracked_Inr: "\<exists>res'. for_tracked user now clock i rs res = Inr res'"
  by (induction rs arbitrary: res i) (simp_all add: process_repo_eq[OF reading_fits])

lemma for_tracked_summary:
  "for_tracked user now clock i rs res = Inr res' \<Longrightarrow>
   summary res' p = fold (\<lambda>r acc. stats_add acc (period_stats user now r p)) rs (summary res p)"
  by (induction rs arbitrary: res i) (simp_all add: process_repo_eq[OF reading_fits])

lemma for_tracked_repos:
  "for_tracked user now clock i rs res = Inr res' \<Longrightarrow>
   repos res' = fold (\<lambda>r acc. if active user now r
                        then AList.update (full_name r) (repo_record user now r) acc else acc)
                  rs (repos res)"
  by (induction rs arbitrary: res i) (simp_all add: process_repo_eq[OF reading_fits])

lemma for_tracked_languages:
  "for_tracked user now clock i rs res = Inr res' \<Longrightarrow>
   languages res' = fold add_language (concat (map reported_languages rs)) (languages res)"
  by (induction rs arbitrary: res i) (simp_all add: process_repo_eq[OF reading_fits])

lemma for_tracked_daily:
  "for_tracked user now clock i rs res = Inr res' \<Longrightarrow>
   daily res' = fold add_day
     (concat (map (\<lambda>(k, r). if active user now r
                     then map (day_entry r user (reading (clock k))) (py_range_down 90) else [])
                (enumerate i rs))) (daily res)"
  by (induction rs arbitrary: res i) (simp_all add: process_repo_eq[OF reading_fits])

lemma for_tracked_meta:
  "for_tracked user now clock i rs res = Inr res' \<Longrightarrow> meta res' = meta res"
  by (induction rs arbitrary: res i) (simp_all add: process_repo_eq[OF reading_fits])

lemma get_key_stats_add: "get_key key (stats_add a b) = get_key key a + get_key key b"
  by (cases key) (simp_all add: stats_add_def)

lemma get_key_fold_add:
  "get_key key (fold (\<lambda>r acc. stats_add acc (f r)) rs s)
   = get_key key s + sum_list (map (\<lambda>r. get_key key (f r)) rs)"
  by (induction rs arbitrary: s) (simp_all add: get_key_stats_add)

lemma sum_list_filter_zero:
  "(\<And>r. r \<in> set rs \<Longrightarrow> \<not> P r \<Longrightarrow> g r = (0::nat)) \<Longrightarrow>
   sum_list (map g (filter P rs)) = sum_list (map g rs)"
  by (induction rs) auto

lemma inactive_zero: "\<not> active user now r \<Longrightarrow> period_stats user now r p = zero_stats"
proof -
  assume "\<not> active user now r"
  then have "commits (period_stats user now r p) = 0"
    by (cases p) (simp_all add: active_def)
  then show ?thesis unfolding period_stats_def by (rule accumulated_zero)
qed

lemma get_key_zero: "get_key key zero_stats = 0"
  by (cases key) (simp_all add: zero_stats_def)

lemma update_map_snd:
  "AList.update k (f v) (map (\<lambda>(n, x). (n, f x)) al) = map (\<lambda>(n, x). (n, f x)) (AList.update k v al)"
  by (induction al) auto

lemma fold_store_map:
  "fold (\<lambda>r acc. if active user now r then AList.update (full_name r) (f r) acc else acc) rs
     (map (\<lambda>(n, x). (n, f x)) al)
   = map (\<lambda>(n, x). (n, f x))
       (fold (\<lambda>r acc. if active user now r then AList.update (full_name r) r acc else acc) rs al)"
  by (induction rs arbitrary: al) (simp_all add: update_map_snd)

lemma remdups_append_mem: "k \<in> set B \<Longrightarrow> remdups (A @ k # B) = remdups (A @ B)"
  by (induction A) auto

lemma fold_store_keys:
  "distinct (map fst al) \<Longrightarrow> map fst (fold (\<lambda>r acc. if active user now r then AList.update (full_name r) r acc else acc) rs al)
   = first_occurrences (map fst al @ map full_name (filter (active user now) rs))"
proof (induction rs arbitrary: al)
  case Nil
  then show ?case by (simp add: first_occurrences_def distinct_remdups_id)
next
  case (Cons r rs)
  show ?case
  proof (cases "active user now r")
    case False
    then show ?thesis using Cons by simp
  next
    case True
    show ?thesis
    proof (cases "full_name r \<in> fst ` set al")
      case True
      then show ?thesis
        using Cons.IH[of "AList.update (full_name r) r al"] Cons.prems \<open>active user now r\<close>
        by (simp add: update_keys first_occurrences_def remdups_append_mem distinct_update)
    next
      case False
      then show ?thesis
        using Cons.IH[of "AList.update (full_name r) r al"] Cons.prems \<open>active user now r\<close>
        by (simp add: update_keys first_occurrences_def distinct_update)
    qed
  qed
qed


lemma fold_store_set:
  "(n, h) \<in> set (fold (\<lambda>r acc. if active user now r then AList.update (full_name r) r acc else acc) rs al)
   \<Longrightarrow> (n, h) \<in> set al \<or> (h \<in> set rs \<and> active user now h \<and> full_name h = n)"
proof (induction rs arbitrary: al)
  case (Cons r rs)
  show ?case
  proof (cases "active user now r")
    case False then show ?thesis using Cons by auto
  next
    case True
    then have "(n, h) \<in> set (AList.update (full_name r) r al) \<or> (h \<in> set rs \<and> active user now h \<and> full_name h = n)"
      using Cons by simp
    moreover have "(n, h) \<in> set (AList.update (full_name r) r al) \<Longrightarrow> (n, h) \<in> set al \<or> (n, h) = (full_name r, r)"
      by (induction al) (auto split: if_splits)
    ultimately show ?thesis using True by auto
  qed
qed simp

lemma fold_store_distinct:
  "distinct (map full_name rs) \<Longrightarrow> full_name ` set rs \<inter> fst ` set al = {} \<Longrightarrow>
   fold (\<lambda>r acc. if active user now r then AList.update (full_name r) r acc else acc) rs al
   = al @ map (\<lambda>r. (full_name r, r)) (filter (active user now) rs)"
proof (induction rs arbitrary: al)
  case (Cons r rs)
  have u: "AList.update (full_name r) r al = al @ [(full_name r, r)]"
    using Cons.prems(2) by (induction al) auto
  show ?case
  proof (cases "active user now r")
    case False then show ?thesis using Cons by auto
  next
    case True
    have "full_name ` set rs \<inter> fst ` set (al @ [(full_name r, r)]) = {}"
      using Cons.prems by auto
    then show ?thesis using Cons.IH[of "al @ [(full_name r, r)]"] Cons.prems True u by simp
  qed
qed simp

lemma stored_subset: "h \<in> set (stored user now rs) \<Longrightarrow> h \<in> set rs \<and> active user now h"
  using fold_store_set[of _ h user now rs "[]"] by (auto simp: stored_def)

lemma stored_names:
  "map full_name (stored user now rs) = first_occurrences (map full_name (filter (active user now) rs))"
proof -
  let ?F = "fold (\<lambda>r acc. if active user now r then AList.update (full_name r) r acc else acc) rs []"
  have "\<forall>(n, h) \<in> set ?F. full_name h = n"
    using fold_store_set[of _ _ user now rs "[]"] by auto
  then have "map (full_name \<circ> snd) ?F = map fst ?F" by (intro map_cong) auto
  then show ?thesis using fold_store_keys[of "[]" user now rs] by (simp add: stored_def)
qed

lemma stored_distinct:
  "distinct (map full_name rs) \<Longrightarrow> stored user now rs = filter (active user now) rs"
  using fold_store_distinct[of rs "[]" user now] by (simp add: stored_def comp_def)

lemma stored_names_set:
  "full_name ` set (stored user now rs) = full_name ` {r \<in> set rs. active user now r}"
proof -
  have "set (map full_name (stored user now rs)) = set (map full_name (filter (active user now) rs))"
    unfolding stored_names first_occurrences_def by simp
  then show ?thesis by auto
qed

lemma for_tracked_repos_stored:
  assumes "for_tracked user now clock i rs res = Inr res'" "repos res = []"
  shows "repos res' = map (\<lambda>h. (full_name h, repo_record user now h)) (stored user now rs)"
proof -
  let ?F = "fold (\<lambda>r acc. if active user now r then AList.update (full_name r) r acc else acc) rs []"
  have n: "\<forall>(n, h) \<in> set ?F. full_name h = n"
    using fold_store_set[of _ _ user now rs "[]"] by auto
  have "repos res' = map (\<lambda>(n, x). (n, repo_record user now x)) ?F"
    using for_tracked_repos[OF assms(1)] assms(2)
      fold_store_map[of user now "repo_record user now" rs "[]"] by simp
  also have "\<dots> = map (\<lambda>h. (full_name h, repo_record user now h)) (map snd ?F)"
    using n by (auto simp: comp_def intro!: map_cong)
  finally show ?thesis by (simp add: stored_def)
qed

lemma year_entries_stored:
  "year_entries (map (\<lambda>h. (full_name h, repo_record user now h)) hs)
   = Inr (map (top_of user now) (filter (\<lambda>h. commits (period_stats user now h Year) > 0) hs))"
  by (induction hs) (simp_all add: repo_record_def top_of_def)

lemma get_repos_to_track_Inr: "\<exists>tracked. get_repos_to_track R g user = Inr tracked"
  by (simp add: get_repos_to_track_def Let_def)

lemma mset_sorted_reverse: "mset (sorted_reverse f xs) = mset xs"
  by (simp add: sorted_reverse_def)

lemma set_sorted_reverse: "set (sorted_reverse f xs) = set xs"
  by (simp add: sorted_reverse_def)

lemma length_sorted_reverse: "length (sorted_reverse f xs) = length xs"
  by (simp add: sorted_reverse_def)

lemma sorted_reverse_descending: "sorted_wrt (\<lambda>a b. f a \<ge> f b) (sorted_reverse f xs)"
proof -
  have "sorted (map f (sort_key f (rev xs)))" by (rule sorted_sort_key)
  then have "sorted_wrt (\<lambda>a b. f a \<le> f b) (sort_key f (rev xs))" by (simp add: sorted_map)
  then show ?thesis by (simp add: sorted_reverse_def sorted_wrt_rev)
qed

lemma sorted_reverse_stable:
  "filter (\<lambda>y. f y = k) (sorted_reverse f xs) = filter (\<lambda>y. f y = k) xs"
  by (simp add: sorted_reverse_def rev_filter[symmetric] sort_key_stable)

lemma collect_all_metrics_eq:
  assumes "get_user g U = Inr user" "get_repos_to_track R g user = Inr tracked"
  shows "\<exists>res. for_tracked U now clock 0 tracked (init_results U now) = Inr res \<and>
           collect_all_metrics U R g now clock =
             Inr (res\<lparr>top_repos := take 10 (sorted_reverse top_additions
                    (map (top_of U now)
                       (filter (\<lambda>h. commits (period_stats U now h Year) > 0)
                          (stored U now tracked))))\<rparr>)"
proof -
  obtain res where r: "for_tracked U now clock 0 tracked (init_results U now) = Inr res"
    using for_tracked_Inr by blast
  have "repos res = map (\<lambda>h. (full_name h, repo_record U now h)) (stored U now tracked)"
    using for_tracked_repos_stored[OF r] by (simp add: init_results_def)
  then have "year_entries (repos res) = Inr (map (top_of U now)
                       (filter (\<lambda>h. commits (period_stats U now h Year) > 0)
                          (stored U now tracked)))"
    by (simp add: year_entries_stored)
  then show ?thesis using r assms
    by (simp add: collect_all_metrics_def init_results_def[symmetric] Let_def)
qed

section \<open>The claims about the commit statistics accumulator\<close>

text \<open>
  C7: for every repository handle, author and window, \<^verbatim>\<open>get_commit_stats\<close> returns (it never
  raises), and what it returns is the dictionary as the \<^verbatim>\<open>try\<close> block left it: all zero
  when the query itself fails, and otherwise the all-zero stats plus, for each commit that
  the loop reached before the listing ended or failed, one commit, its reported additions
  and deletions and its number of files (zero where they are unavailable). No step
  decreases a field, and each commit reached counts as one commit.
\<close>

theorem get_commit_stats_never_raises:
  "get_commit_stats r author since until = Inr (accumulated r author since until)
   \<and> (\<forall>e. get_commits r author since until = Inl e \<longrightarrow>
          accumulated r author since until = zero_stats)
   \<and> (\<forall>cs. get_commits r author since until = Inr cs \<longrightarrow>
          accumulated r author since until
          = fold (\<lambda>c acc. stats_add acc (reported c)) (processed cs) zero_stats)
   \<and> (\<forall>c st. stats_le st (fst (count_commit c st))
          \<and> commits (fst (count_commit c st)) = commits st + 1)
   \<and> (\<forall>cs st. stats_le st (fst (for_commits cs st)))"
proof -
  have 1: "accumulated r author since until = zero_stats"
    if "get_commits r author since until = Inl e" for e
    using that by (simp add: accumulated_def try_block_def)
  have 2: "accumulated r author since until
          = fold (\<lambda>c acc. stats_add acc (reported c)) (processed cs) zero_stats"
    if "get_commits r author since until = Inr cs" for cs
    using that by (simp add: accumulated_def try_block_def for_commits_processed)
  have 3: "stats_le st (fst (count_commit c st))
          \<and> commits (fst (count_commit c st)) = commits st + 1" for c st
    by (simp add: count_commit_reported stats_le_add) (simp add: stats_add_def reported_def)
  have 4: "stats_le st (fst (for_commits cs st))" for cs st
    by (simp add: for_commits_processed fold_stats_le)
  show ?thesis using get_commit_stats_Inr 1 2 3 4 by blast
qed

theorem get_commit_stats_never_raises_witness:
  "get_commits demo_repo ''djok'' 0 1 = Inr demo_commits
   \<and> get_commit_stats demo_repo ''djok'' 0 1
     = Inr \<lparr>commits = 2, additions = 10, deletions = 2, files_changed = 2\<rparr>
   \<and> get_commits quiet_repo ''djok'' 0 1 = Inl ApiError
   \<and> get_commit_stats quiet_repo ''djok'' 0 1 = Inr zero_stats"
proof -
  have a: "get_commits demo_repo ''djok'' 0 1 = Inr demo_commits"
    by (simp add: demo_repo_def)
  have b: "get_commits quiet_repo ''djok'' 0 1 = Inl ApiError"
    by (simp add: quiet_repo_def)
  have c: "fold (\<lambda>c acc. stats_add acc (reported c)) (processed demo_commits) zero_stats
           = \<lparr>commits = 2, additions = 10, deletions = 2, files_changed = 2\<rparr>"
    by (simp add: demo_commits_def raises_def reported_def stats_add_def zero_stats_def)
  show ?thesis
    using get_commit_stats_never_raises [of demo_repo "''djok''" 0 1]
      get_commit_stats_never_raises [of quiet_repo "''djok''" 0 1] a b c
    by simp
qed

text \<open>
  C10: the loop changes the additions, the deletions and the files only in a step that
  counts a commit, so stats whose commit count did not move did not move at all; stats
  returned with zero commits are all zero, and folding them into the summary of a period
  leaves the snapshot as it was.
\<close>

theorem zero_commits_zero_stats:
  "(fst (for_commits cs st0) = st \<longrightarrow> commits st = commits st0 \<longrightarrow> st = st0)
   \<and> (get_commit_stats r author since until = Inr st' \<longrightarrow> commits st' = 0 \<longrightarrow>
        additions st' = 0 \<and> deletions st' = 0 \<and> files_changed st' = 0
        \<and> add_to_summary p st' res = res)"
proof -
  have 1: "st = st0" if "fst (for_commits cs st0) = st" "commits st = commits st0"
  proof -
    have "commits (fst (for_commits cs st0)) = commits st0 + length (processed cs)"
      by (simp add: for_commits_processed fold_commits_count)
    then have "commits st = commits st0 + length (processed cs)"
      using that(1) by simp
    then have "processed cs = []" using that(2) by simp
    then show ?thesis using that(1) by (simp add: for_commits_processed)
  qed
  have 2: "additions st' = 0 \<and> deletions st' = 0 \<and> files_changed st' = 0
        \<and> add_to_summary p st' res = res"
    if "get_commit_stats r author since until = Inr st'" "commits st' = 0"
  proof -
    have "st' = accumulated r author since until" using that(1) by (simp add: get_commit_stats_Inr)
    then have z: "st' = zero_stats" using that(2) accumulated_zero by blast
    have "stats_add (summary res p) zero_stats = summary res p"
      by (simp add: stats_add_def zero_stats_def)
    then show ?thesis using z by (simp add: add_to_summary_eq) (simp add: zero_stats_def)
  qed
  show ?thesis using 1 2 by blast
qed

theorem zero_commits_zero_stats_witness:
  "get_commit_stats quiet_repo ''djok'' 0 1 = Inr zero_stats \<and> commits zero_stats = 0
   \<and> fst (for_commits (Fetch_failed ApiError) zero_stats) = zero_stats
   \<and> additions zero_stats = 0 \<and> deletions zero_stats = 0 \<and> files_changed zero_stats = 0
   \<and> add_to_summary Year zero_stats (init_results ''djok'' demo_now) = init_results ''djok'' demo_now"
proof -
  have a: "get_commit_stats quiet_repo ''djok'' 0 1 = Inr zero_stats"
    by (simp add: get_commit_stats_def try_block_def except_pass_def return_state_def quiet_repo_def)
  have b: "commits zero_stats = 0" by (simp add: zero_stats_def)
  show ?thesis
    using zero_commits_zero_stats [of "Fetch_failed ApiError" zero_stats zero_stats quiet_repo
        "''djok''" 0 1 zero_stats Year "init_results ''djok'' demo_now"] a b
    by simp
qed

section \<open>The claim about the window of today\<close>

text \<open>
  C4: the window of the period today starts at 00:00:00 of the previous calendar day and
  ends at the instant of the run. Read as a half-open interval, it contains every instant
  of the previous day, 23:59 of that day among them, and no instant of an earlier day:
  23:59 two days before the run is outside.
\<close>

theorem today_window_bounds:
  "map_of (periods now) Today = Some (at_clock (strftime_date now - 1) 0 0, now)
   \<and> in_window (window now Today) (at_clock (strftime_date now - 1) 23 59)
   \<and> \<not> in_window (window now Today) (at_clock (strftime_date now - 2) 23 59)
   \<and> (\<forall>t. strftime_date t = strftime_date now - 1 \<longrightarrow> in_window (window now Today) t)
   \<and> (\<forall>t. strftime_date t \<le> strftime_date now - 2 \<longrightarrow> \<not> in_window (window now Today) t)"
proof -
  have a: "strftime_date now * us_per_day \<le> now" by (rule strftime_date_bounds)
  have b: "\<And>t. strftime_date t * us_per_day \<le> t" by (rule strftime_date_bounds)
  have c: "\<And>t. t < (strftime_date t + 1) * us_per_day" by (rule strftime_date_bounds)
  have 0: "map_of (periods now) Today = Some (at_clock (strftime_date now - 1) 0 0, now)"
    by (simp add: map_of_periods today_window)
  have 1: "in_window (window now Today) (at_clock (strftime_date now - 1) 23 59)"
    using a by (simp add: today_window in_window_def at_clock_def us_per_day_def us_per_minute_def)
  have 2: "\<not> in_window (window now Today) (at_clock (strftime_date now - 2) 23 59)"
    by (simp add: today_window in_window_def at_clock_def us_per_day_def us_per_minute_def)
  have 3: "in_window (window now Today) t" if "strftime_date t = strftime_date now - 1" for t
    using a b[of t] c[of t] that
    by (simp add: today_window in_window_def at_clock_def us_per_day_def)
  have 4: "\<not> in_window (window now Today) t" if "strftime_date t \<le> strftime_date now - 2" for t
  proof -
    have "(strftime_date t + 1) * us_per_day \<le> (strftime_date now - 1) * us_per_day"
      using that by (simp add: us_per_day_def)
    then show ?thesis using c[of t]
      by (simp add: today_window in_window_def at_clock_def)
  qed
  show ?thesis using 0 1 2 3 4 by blast
qed

theorem today_window_bounds_witness:
  "strftime_date demo_now = 739000
   \<and> strftime_date (at_clock 738999 12 0) = strftime_date demo_now - 1
   \<and> in_window (window demo_now Today) (at_clock 738999 12 0)
   \<and> in_window (window demo_now Today) (at_clock 738999 23 59)
   \<and> strftime_date (at_clock 738998 23 59) \<le> strftime_date demo_now - 2
   \<and> \<not> in_window (window demo_now Today) (at_clock 738998 23 59)"
proof -
  have a: "strftime_date demo_now = 739000"
    by (simp add: demo_now_def at_clock_def strftime_date_def us_per_day_def us_per_minute_def)
  have b: "strftime_date (at_clock 738999 12 0) = 738999"
    by (simp add: at_clock_def strftime_date_def us_per_day_def us_per_minute_def)
  have c: "strftime_date (at_clock 738998 23 59) = 738998"
    by (simp add: at_clock_def strftime_date_def us_per_day_def us_per_minute_def)
  show ?thesis using today_window_bounds [of demo_now] a b c by simp
qed

section \<open>Properties of the daily mapping\<close>


lemma dom_add_day: "dom (add_day d m) = insert (date d) (dom m)"
  by (auto simp: add_day_def Let_def)

lemma dom_fold_add_day: "dom (fold add_day es m) = dom m \<union> date ` set es"
  by (induction es arbitrary: m) (auto simp: dom_add_day)

lemma concat_map_if_filter:
  "concat (map (\<lambda>x. if P x then f x else []) xs) = concat (map f (filter P xs))"
  by (induction xs) auto

lemma collect_daily:
  assumes "get_user g U = Inr user" "get_repos_to_track R g user = Inr tracked"
  shows "\<exists>snap. collect_all_metrics U R g now clock = Inr snap
     \<and> daily snap = fold add_day
         (concat (map (\<lambda>(k, h). map (day_entry h U (reading (clock k))) (py_range_down 90))
                    (filter (\<lambda>(k, h). active U now h) (enumerate 0 tracked)))) Map.empty"
proof -
  obtain res where r: "for_tracked U now clock 0 tracked (init_results U now) = Inr res"
    and c: "collect_all_metrics U R g now clock =
             Inr (res\<lparr>top_repos := take 10 (sorted_reverse top_additions
                    (map (top_of U now)
                       (filter (\<lambda>h. commits (period_stats U now h Year) > 0)
                          (stored U now tracked))))\<rparr>)"
    using collect_all_metrics_eq[OF assms] by blast
  have e: "(\<lambda>(k, r). if active U now r then map (day_entry r U (reading (clock k))) (py_range_down 90) else [])
      = (\<lambda>x. if (\<lambda>(k, h). active U now h) x
              then (\<lambda>(k, h). map (day_entry h U (reading (clock k))) (py_range_down 90)) x else [])"
    by (auto simp: fun_eq_iff)
  have "daily res = fold add_day
         (concat (map (\<lambda>(k, h). map (day_entry h U (reading (clock k))) (py_range_down 90))
                    (filter (\<lambda>(k, h). active U now h) (enumerate 0 tracked)))) Map.empty"
    using for_tracked_daily[OF r] unfolding e concat_map_if_filter
    by (simp add: init_results_def)
  then show ?thesis using c by simp
qed

lemma daily_series_props:
  assumes "0 \<le> N" and fits: "window_fits now N"
  shows "\<exists>ds. get_daily_stats now r author N = Inr ds \<and> length ds = nat N + 1
       \<and> map date ds = [strftime_date now - N .. strftime_date now]
       \<and> (\<forall>k<length ds. ds ! k = day_entry r author now (N - int k))
       \<and> sorted_wrt (<) (map date ds) \<and> date (last ds) = strftime_date now"
proof -
  let ?ds = "map (day_entry r author now) (py_range_down N)"
  have 1: "get_daily_stats now r author N = Inr ?ds" by (rule get_daily_stats_eq[OF fits])
  have 2: "length ?ds = nat N + 1" using assms(1) by (simp add: length_py_range_down)
  have 3: "map date ?ds = [strftime_date now - N .. strftime_date now]"
    using dates_daily[OF assms(1)] by simp
  have 4: "\<forall>k<length ?ds. ?ds ! k = day_entry r author now (N - int k)"
    by (simp add: nth_py_range_down)
  have 5: "sorted_wrt (<) (map date ?ds)"
    unfolding 3 by (simp add: strict_sorted_iff)
  have "?ds \<noteq> []" using 2 by auto
  then have "date (last ?ds) = last (map date ?ds)" by (simp add: last_map)
  also have "\<dots> = strftime_date now" unfolding 3 using assms(1) by (simp add: upto_rec2)
  finally have 6: "date (last ?ds) = strftime_date now" .
  show ?thesis using 1 2 3 4 5 6 by blast
qed

lemma day_entry_date: "date (day_entry r author now i) = strftime_date now - i"
  by (simp add: day_entry_def Let_def)

lemma dates_of_series:
  "date ` set (map (day_entry h U t) (py_range_down 90)) = {strftime_date t - 90 .. strftime_date t}"
proof -
  have "set (map date (map (day_entry h U t) (py_range_down 90))) = set [strftime_date t - 90 .. strftime_date t]"
    using dates_daily[of 90 h U t] by simp
  then show ?thesis by (simp add: image_image)
qed

lemma image_set_concat_map: "g ` set (concat (map f xs)) = (\<Union>x \<in> set xs. g ` set (f x))"
  by (induction xs) (simp_all add: image_Un)

section \<open>The claim about the daily series\<close>

lemma demo_today: "strftime_date demo_now = 739000"
  by (simp add: demo_now_def at_clock_def strftime_date_def us_per_day_def us_per_minute_def)

text \<open>
  C6 as stated fails: at a run on day 739000 (2024-04-24) the window size 800000 reaches
  before the first day of the calendar, and the builder raises \<^verbatim>\<open>OverflowError\<close> instead
  of returning 800001 entries.
\<close>

theorem daily_series_overflow_counterexample:
  "get_daily_stats demo_now demo_repo ''djok'' 800000 = Inl OverflowError"
  by (rule get_daily_stats_overflow) (simp_all add: demo_today min_day_def)

text \<open>
  C6, amended: for every window size \<^verbatim>\<open>N \<ge> 0\<close> that stays in the calendar (the day \<^verbatim>\<open>N\<close> days
  before now is not before 0001-01-01, and now is before 9999-12-31), \<^verbatim>\<open>get_daily_stats\<close>
  returns \<^verbatim>\<open>N + 1\<close> entries, one for each offset from \<^verbatim>\<open>N\<close> down to 0: the entry at position
  \<^verbatim>\<open>k\<close> is the one of the day \<^verbatim>\<open>N - k\<close> days before now, with the stats of the window from
  00:00:00 of that day to 00:00:00 of the next. The dates ascend day by day and end with the
  current day. The day bounds are those of now minus the offset in days. A window that
  reaches before 0001-01-01 raises \<^verbatim>\<open>OverflowError\<close>. In a run, the daily mapping of the
  snapshot is the additive fold of the 91 entries of the 90-day series of each active
  repository, and of nothing else, so its dates are the 91 days up to the day on which the
  series of an active repository was taken.
\<close>

theorem daily_series_shape:
  "(0 \<le> N \<and> window_fits now N \<longrightarrow>
      (\<exists>ds. get_daily_stats now r author N = Inr ds \<and> length ds = nat N + 1
       \<and> map date ds = [strftime_date now - N .. strftime_date now]
       \<and> (\<forall>k<length ds. ds ! k = day_entry r author now (N - int k))
       \<and> sorted_wrt (<) (map date ds) \<and> date (last ds) = strftime_date now))
   \<and> (0 \<le> N \<and> strftime_date now - N < min_day \<longrightarrow>
        get_daily_stats now r author N = Inl OverflowError)
   \<and> (\<forall>i. midnight (now - timedelta_days i) = at_clock (strftime_date now - i) 0 0
          \<and> midnight (now - timedelta_days i) + timedelta_days 1
            = at_clock (strftime_date now - i + 1) 0 0)
   \<and> (get_user g U = Inr user \<longrightarrow> get_repos_to_track R g user = Inr tracked \<longrightarrow>
       (\<exists>snap. collect_all_metrics U R g now clock = Inr snap
          \<and> daily snap = fold add_day
              (concat (map (\<lambda>(k, h). map (day_entry h U (reading (clock k))) (py_range_down 90))
                         (filter (\<lambda>(k, h). active U now h) (enumerate 0 tracked)))) Map.empty
          \<and> dom (daily snap) =
              (\<Union>(k, h) \<in> {kh \<in> set (enumerate 0 tracked). active U now (snd kh)}.
                 {strftime_date (reading (clock k)) - 90 .. strftime_date (reading (clock k))})))"
proof -
  have 2: "midnight (now - timedelta_days i) = at_clock (strftime_date now - i) 0 0
          \<and> midnight (now - timedelta_days i) + timedelta_days 1
            = at_clock (strftime_date now - i + 1) 0 0" for i
  proof -
    have "midnight (now - timedelta_days i) = (strftime_date now - i) * us_per_day"
      by (rule midnight_minus_days)
    then show ?thesis by (simp add: at_clock_def timedelta_days_def algebra_simps)
  qed
  have 3: "\<exists>snap. collect_all_metrics U R g now clock = Inr snap
          \<and> daily snap = fold add_day
              (concat (map (\<lambda>(k, h). map (day_entry h U (reading (clock k))) (py_range_down 90))
                         (filter (\<lambda>(k, h). active U now h) (enumerate 0 tracked)))) Map.empty
          \<and> dom (daily snap) =
              (\<Union>(k, h) \<in> {kh \<in> set (enumerate 0 tracked). active U now (snd kh)}.
                 {strftime_date (reading (clock k)) - 90 .. strftime_date (reading (clock k))})"
    if a: "get_user g U = Inr user" "get_repos_to_track R g user = Inr tracked"
  proof -
    obtain snap where s: "collect_all_metrics U R g now clock = Inr snap"
      and d: "daily snap = fold add_day
              (concat (map (\<lambda>(k, h). map (day_entry h U (reading (clock k))) (py_range_down 90))
                         (filter (\<lambda>(k, h). active U now h) (enumerate 0 tracked)))) Map.empty"
      using collect_daily[OF a] by blast
    have "dom (daily snap) =
              (\<Union>(k, h) \<in> {kh \<in> set (enumerate 0 tracked). active U now (snd kh)}.
                 {strftime_date (reading (clock k)) - 90 .. strftime_date (reading (clock k))})"
    proof -
      let ?F = "\<lambda>(k, h). map (day_entry h U (reading (clock k))) (py_range_down 90)"
      let ?E = "filter (\<lambda>(k, h). active U now h) (enumerate 0 tracked)"
      have "date ` set (concat (map ?F ?E)) = (\<Union>x \<in> set ?E. date ` set (?F x))"
        by (rule image_set_concat_map)
      also have "\<dots> = (\<Union>x \<in> set ?E. case x of (k, h) \<Rightarrow>
                 {strftime_date (reading (clock k)) - 90 .. strftime_date (reading (clock k))})"
        by (intro SUP_cong refl) (auto simp only: dates_of_series split: prod.splits)
      also have "set ?E = {kh \<in> set (enumerate 0 tracked). active U now (snd kh)}"
        by auto
      finally show ?thesis unfolding d dom_fold_add_day by simp
    qed
    then show ?thesis using s d by blast
  qed
  have 1: "\<exists>ds. get_daily_stats now r author N = Inr ds \<and> length ds = nat N + 1
       \<and> map date ds = [strftime_date now - N .. strftime_date now]
       \<and> (\<forall>k<length ds. ds ! k = day_entry r author now (N - int k))
       \<and> sorted_wrt (<) (map date ds) \<and> date (last ds) = strftime_date now"
    if "0 \<le> N \<and> window_fits now N"
    using that daily_series_props by blast
  have 4: "get_daily_stats now r author N = Inl OverflowError"
    if "0 \<le> N \<and> strftime_date now - N < min_day"
    using that get_daily_stats_overflow by blast
  show ?thesis using 1 2 3 4 by blast
qed

lemma demo_tracked:
  "get_repos_to_track [] demo_github demo_user = Inr [demo_repo, quiet_repo]"
  by (simp add: get_repos_to_track_def discover_own_def discover_orgs_def demo_github_def
      demo_user_def except_pass_def add_unseen_def demo_repo_def quiet_repo_def)

lemma demo_accumulated:
  "accumulated demo_repo author since until
   = \<lparr>commits = 2, additions = 10, deletions = 2, files_changed = 2\<rparr>"
  by (simp add: accumulated_def try_block_def demo_repo_def demo_commits_def count_commit_def
      zero_stats_def)

lemma quiet_accumulated: "accumulated quiet_repo author since until = zero_stats"
  by (simp add: accumulated_def try_block_def quiet_repo_def)

lemma demo_active: "active user now demo_repo"
  by (simp add: active_def period_stats_def demo_accumulated)

lemma quiet_inactive: "\<not> active user now quiet_repo"
  by (simp add: active_def period_stats_def quiet_accumulated zero_stats_def)

lemma demo_get_user: "get_user demo_github ''djok'' = Inr demo_user"
  by (simp add: demo_github_def)

lemma demo_fits: "window_fits demo_now 2"
  by (simp add: window_fits_def demo_today min_day_def max_day_def)

lemma reading_demo_clock: "reading (demo_clock i) = demo_now"
  unfolding demo_clock_def
  by (rule Abs_clock_reading_inverse)
     (simp add: demo_now_def at_clock_def us_per_day_def us_per_minute_def max_day_def)

theorem daily_series_shape_witness:
  "(0::int) \<le> 2 \<and> window_fits demo_now 2
   \<and> (\<exists>ds. get_daily_stats demo_now demo_repo ''djok'' 2 = Inr ds \<and> length ds = 3
          \<and> map date ds = [738998, 738999, 739000])
   \<and> (0::int) \<le> 800000 \<and> strftime_date demo_now - 800000 < min_day
   \<and> get_daily_stats demo_now demo_repo ''djok'' 800000 = Inl OverflowError
   \<and> get_user demo_github ''djok'' = Inr demo_user
   \<and> get_repos_to_track [] demo_github demo_user = Inr [demo_repo, quiet_repo]
   \<and> (\<exists>snap. collect_all_metrics ''djok'' [] demo_github demo_now demo_clock = Inr snap
          \<and> dom (daily snap) = {738910 .. 739000})"
proof -
  note T = daily_series_shape [of 2 demo_now demo_repo "''djok''" demo_github "''djok''" demo_user
        "[]" "[demo_repo, quiet_repo]" demo_clock]
  note T' = daily_series_shape [of 800000 demo_now demo_repo "''djok''" demo_github "''djok''"
        demo_user "[]" "[demo_repo, quiet_repo]" demo_clock]
  have e: "{kh \<in> set (enumerate 0 [demo_repo, quiet_repo]). active ''djok'' demo_now (snd kh)}
           = {(0, demo_repo)}"
    using demo_active quiet_inactive by auto
  have u: "[738998 .. 739000] = [738998, 738999, 739000::int]"
    by (simp add: upto_rec1)
  have o: "strftime_date demo_now - 800000 < min_day"
    by (simp add: demo_today min_day_def)
  from T demo_fits obtain ds where ds: "get_daily_stats demo_now demo_repo ''djok'' 2 = Inr ds"
      "length ds = nat 2 + 1" "map date ds = [strftime_date demo_now - 2 .. strftime_date demo_now]"
    by auto
  from T' o have ov: "get_daily_stats demo_now demo_repo ''djok'' 800000 = Inl OverflowError"
    by simp
  from T demo_get_user demo_tracked obtain snap
    where s: "collect_all_metrics ''djok'' [] demo_github demo_now demo_clock = Inr snap"
      and d: "dom (daily snap) =
              (\<Union>(k, h) \<in> {kh \<in> set (enumerate 0 [demo_repo, quiet_repo]).
                               active ''djok'' demo_now (snd kh)}.
                 {strftime_date (reading (demo_clock k)) - 90
                  .. strftime_date (reading (demo_clock k))})"
    by blast
  have "dom (daily snap) = {738910 .. 739000}"
    unfolding d e by (simp add: reading_demo_clock demo_today)
  then show ?thesis
    using ds s u o ov demo_fits demo_get_user demo_tracked by (simp add: demo_today)
qed

section \<open>The claims about the snapshot\<close>

lemma collect_summary:
  assumes "get_user g U = Inr user" "get_repos_to_track R g user = Inr tracked"
  shows "\<exists>snap. collect_all_metrics U R g now clock = Inr snap
     \<and> (\<forall>p key. get_key key (summary snap p)
           = sum_list (map (\<lambda>h. get_key key (period_stats U now h p)) tracked))
     \<and> repos snap = map (\<lambda>h. (full_name h, repo_record U now h)) (stored U now tracked)
     \<and> languages snap = fold add_language (concat (map reported_languages tracked)) Map.empty
     \<and> top_repos snap = take 10 (sorted_reverse top_additions
                    (map (top_of U now)
                       (filter (\<lambda>h. commits (period_stats U now h Year) > 0)
                          (stored U now tracked))))
     \<and> meta snap = \<lparr>updated_at = now, username = U, generated_by = ''GitHub Metrics Dashboard''\<rparr>"
proof -
  obtain res where r: "for_tracked U now clock 0 tracked (init_results U now) = Inr res"
    and c: "collect_all_metrics U R g now clock =
             Inr (res\<lparr>top_repos := take 10 (sorted_reverse top_additions
                    (map (top_of U now)
                       (filter (\<lambda>h. commits (period_stats U now h Year) > 0)
                          (stored U now tracked))))\<rparr>)"
    using collect_all_metrics_eq[OF assms] by blast
  have s: "get_key key (summary res p)
           = sum_list (map (\<lambda>h. get_key key (period_stats U now h p)) tracked)" for p key
    using for_tracked_summary[OF r, of p]
    by (simp add: get_key_fold_add init_results_def get_key_zero)
  have rp: "repos res = map (\<lambda>h. (full_name h, repo_record U now h)) (stored U now tracked)"
    using for_tracked_repos_stored[OF r] by (simp add: init_results_def)
  have l: "languages res = fold add_language (concat (map reported_languages tracked)) Map.empty"
    using for_tracked_languages[OF r] by (simp add: init_results_def)
  have m: "meta res = \<lparr>updated_at = now, username = U, generated_by = ''GitHub Metrics Dashboard''\<rparr>"
    using for_tracked_meta[OF r] by (simp add: init_results_def)
  show ?thesis using c s rp l m by simp
qed

lemma sum_active:
  "sum_list (map (\<lambda>h. get_key key (period_stats U now h p)) (filter (active U now) tracked))
   = sum_list (map (\<lambda>h. get_key key (period_stats U now h p)) tracked)"
  by (rule sum_list_filter_zero) (simp add: inactive_zero get_key_zero)

text \<open>
  What holds of the summary totals in every run: for every period and every field the
  total is the sum of that field of the period stats over the active handles of the tracked
  list, a handle that is not active adding nothing. Every record of the detail mapping has
  the stats of all five periods, and when no two tracked repositories share a full
  identifier the total is also the sum over the records of the detail mapping.
\<close>

lemma summary_totals:
  assumes "get_user g U = Inr user" and "get_repos_to_track R g user = Inr tracked"
  shows "\<exists>snap. collect_all_metrics U R g now clock = Inr snap
     \<and> (\<forall>p key. get_key key (summary snap p)
           = sum_list (map (\<lambda>h. get_key key (period_stats U now h p))
                         (filter (active U now) tracked)))
     \<and> (\<forall>h p key. \<not> active U now h \<longrightarrow> get_key key (period_stats U now h p) = 0)
     \<and> (\<forall>data \<in> snd ` set (repos snap). \<forall>p. rd_periods data p \<noteq> None)
     \<and> (distinct (map full_name tracked) \<longrightarrow>
          (\<forall>p key. get_key key (summary snap p)
             = sum_list (map (\<lambda>data. case rd_periods data p of
                                        Some st \<Rightarrow> get_key key st | None \<Rightarrow> 0)
                           (map snd (repos snap)))))"
proof -
  obtain snap where s: "collect_all_metrics U R g now clock = Inr snap"
    and t: "\<And>p key. get_key key (summary snap p)
           = sum_list (map (\<lambda>h. get_key key (period_stats U now h p)) tracked)"
    and rp: "repos snap = map (\<lambda>h. (full_name h, repo_record U now h)) (stored U now tracked)"
    using collect_summary[OF assms, of now clock] by blast
  have 1: "get_key key (summary snap p)
           = sum_list (map (\<lambda>h. get_key key (period_stats U now h p))
                         (filter (active U now) tracked))" for p key
    by (simp add: t sum_active)
  have 2: "get_key key (period_stats U now h p) = 0" if "\<not> active U now h" for h p key
    using that by (simp add: inactive_zero get_key_zero)
  have 3: "\<forall>data \<in> snd ` set (repos snap). \<forall>p. rd_periods data p \<noteq> None"
    by (auto simp: rp repo_record_def)
  have 4: "get_key key (summary snap p)
             = sum_list (map (\<lambda>data. case rd_periods data p of
                                        Some st \<Rightarrow> get_key key st | None \<Rightarrow> 0)
                           (map snd (repos snap)))"
    if "distinct (map full_name tracked)" for p key
    by (simp add: 1 rp stored_distinct[OF that] comp_def repo_record_def)
  show ?thesis using s 1 2 3 4 by blast
qed


lemma demo_distinct: "distinct (map full_name [demo_repo, quiet_repo])"
  by (simp add: demo_repo_def quiet_repo_def)

lemma demo_period_stats:
  "period_stats user now demo_repo p
   = \<lparr>commits = 2, additions = 10, deletions = 2, files_changed = 2\<rparr>"
  by (simp add: period_stats_def demo_accumulated)

lemma fold_add_language_eq:
  "fold add_language ls m l =
     (if l \<in> fst ` set ls
      then Some ((case m l of None \<Rightarrow> 0 | Some n \<Rightarrow> n)
                 + sum_list (map snd (filter (\<lambda>e. fst e = l) ls)))
      else m l)"
proof (induction ls arbitrary: m)
  case (Cons e ls)
  have a: "add_language e m l =
      (if fst e = l then Some ((case m l of None \<Rightarrow> 0 | Some n \<Rightarrow> n) + snd e) else m l)"
    by (auto simp: add_language_def)
  have "fold add_language (e # ls) m l = fold add_language ls (add_language e m) l" by simp
  also have "\<dots> = (if l \<in> fst ` set ls
      then Some ((case add_language e m l of None \<Rightarrow> 0 | Some n \<Rightarrow> n)
                 + sum_list (map snd (filter (\<lambda>e. fst e = l) ls)))
      else add_language e m l)"
    by (rule Cons.IH)
  also have "\<dots> = (if l \<in> fst ` set (e # ls)
      then Some ((case m l of None \<Rightarrow> 0 | Some n \<Rightarrow> n)
                 + sum_list (map snd (filter (\<lambda>e. fst e = l) (e # ls))))
      else m l)"
  proof -
    have "filter (\<lambda>e. fst e = l) ls = []" if "l \<notin> fst ` set ls"
      using that by (auto simp: filter_empty_conv)
    then show ?thesis
      unfolding a by (cases "fst e = l") (auto split: option.splits)
  qed
  finally show ?case .
qed simp

lemma distinct_first_occurrences: "distinct (first_occurrences xs)"
  by (simp add: first_occurrences_def)

lemma map_of_stored:
  assumes "h \<in> set (stored U now rs)"
  shows "map_of (map (\<lambda>h. (full_name h, f h)) (stored U now rs)) (full_name h) = Some (f h)"
proof -
  have d: "distinct (map fst (map (\<lambda>h. (full_name h, f h)) (stored U now rs)))"
    using distinct_first_occurrences[of "map full_name (filter (active U now) rs)"]
    by (simp add: comp_def stored_names[symmetric])
  have "(full_name h, f h) \<in> set (map (\<lambda>h. (full_name h, f h)) (stored U now rs))"
    using assms by auto
  then show ?thesis using d by (simp only: map_of_eq_Some_iff[OF d])
qed

text \<open>
  C2: the detail mapping has an entry under a full identifier exactly when an active
  repository of the run has that identifier, so a repository with zero commits in all five
  periods gets no entry. The language mapping holds, for every language that any tracked
  repository reports, the sum of its bytes over all tracked repositories, active or not.
  An active repository finds under its full identifier the detail record of an active
  repository with that identifier (of itself, when no two tracked repositories share a
  full identifier): name, full identifier, URL, description, stars, forks and the stats of
  the five periods.
\<close>

theorem details_and_languages:
  assumes "get_user g U = Inr user" and "get_repos_to_track R g user = Inr tracked"
  shows "\<exists>snap. collect_all_metrics U R g now clock = Inr snap
     \<and> fst ` set (repos snap) = full_name ` {h \<in> set tracked. active U now h}
     \<and> (\<forall>n. (\<forall>h \<in> set tracked. full_name h = n \<longrightarrow> \<not> active U now h) \<longrightarrow>
              map_of (repos snap) n = None)
     \<and> (\<forall>l. languages snap l =
            (if l \<in> fst ` set (concat (map reported_languages tracked))
             then Some (sum_list (map snd (filter (\<lambda>e. fst e = l)
                                             (concat (map reported_languages tracked)))))
             else None))
     \<and> (\<forall>h \<in> set tracked. active U now h \<longrightarrow>
            (\<exists>h' \<in> set tracked. active U now h' \<and> full_name h' = full_name h
               \<and> map_of (repos snap) (full_name h) = Some (repo_record U now h')))
     \<and> (distinct (map full_name tracked) \<longrightarrow>
            repos snap = map (\<lambda>h. (full_name h, repo_record U now h))
                           (filter (active U now) tracked)
            \<and> (\<forall>h \<in> set tracked. active U now h \<longrightarrow>
                  map_of (repos snap) (full_name h) =
                    Some \<lparr>rd_name = name h, rd_full_name = full_name h, rd_url = html_url h,
                          rd_description = description h, rd_stars = stargazers_count h,
                          rd_forks = forks_count h,
                          rd_periods = (\<lambda>p. Some (period_stats U now h p))\<rparr>))"
proof -
  obtain snap where s: "collect_all_metrics U R g now clock = Inr snap"
    and rp: "repos snap = map (\<lambda>h. (full_name h, repo_record U now h)) (stored U now tracked)"
    and l: "languages snap = fold add_language (concat (map reported_languages tracked)) Map.empty"
    using collect_summary[OF assms, of now clock] by blast
  have 1: "fst ` set (repos snap) = full_name ` {h \<in> set tracked. active U now h}"
    using stored_names_set[of U now tracked] by (simp add: rp image_image)
  have 2: "map_of (repos snap) n = None"
    if "\<forall>h \<in> set tracked. full_name h = n \<longrightarrow> \<not> active U now h" for n
  proof -
    have "n \<notin> fst ` set (repos snap)" unfolding 1 using that by auto
    then show ?thesis by (simp add: map_of_eq_None_iff)
  qed
  have 3: "languages snap l =
            (if l \<in> fst ` set (concat (map reported_languages tracked))
             then Some (sum_list (map snd (filter (\<lambda>e. fst e = l)
                                             (concat (map reported_languages tracked)))))
             else None)" for l
    unfolding l by (subst fold_add_language_eq) simp
  have 4: "\<exists>h' \<in> set tracked. active U now h' \<and> full_name h' = full_name h
               \<and> map_of (repos snap) (full_name h) = Some (repo_record U now h')"
    if "h \<in> set tracked" "active U now h" for h
  proof -
    have "full_name h \<in> full_name ` set (stored U now tracked)"
      unfolding stored_names_set using that by auto
    then obtain h' where h': "h' \<in> set (stored U now tracked)" "full_name h' = full_name h"
      by auto
    have "map_of (repos snap) (full_name h') = Some (repo_record U now h')"
      unfolding rp using h'(1) by (rule map_of_stored)
    then show ?thesis using h' stored_subset[OF h'(1)] by auto
  qed
  have 5: "repos snap = map (\<lambda>h. (full_name h, repo_record U now h))
                           (filter (active U now) tracked)
            \<and> (\<forall>h \<in> set tracked. active U now h \<longrightarrow>
                  map_of (repos snap) (full_name h) =
                    Some \<lparr>rd_name = name h, rd_full_name = full_name h, rd_url = html_url h,
                          rd_description = description h, rd_stars = stargazers_count h,
                          rd_forks = forks_count h,
                          rd_periods = (\<lambda>p. Some (period_stats U now h p))\<rparr>)"
    if d: "distinct (map full_name tracked)"
  proof -
    have st: "stored U now tracked = filter (active U now) tracked" by (rule stored_distinct[OF d])
    have "map_of (repos snap) (full_name h) = Some (repo_record U now h)"
      if "h \<in> set tracked" "active U now h" for h
      unfolding rp by (rule map_of_stored) (simp add: st that)
    then show ?thesis by (simp add: rp st repo_record_def)
  qed
  have c2: "\<forall>n. (\<forall>h \<in> set tracked. full_name h = n \<longrightarrow> \<not> active U now h) \<longrightarrow>
              map_of (repos snap) n = None"
    using 2 by blast
  have c3: "\<forall>l. languages snap l =
            (if l \<in> fst ` set (concat (map reported_languages tracked))
             then Some (sum_list (map snd (filter (\<lambda>e. fst e = l)
                                             (concat (map reported_languages tracked)))))
             else None)"
    using 3 by blast
  have c4: "\<forall>h \<in> set tracked. active U now h \<longrightarrow>
            (\<exists>h' \<in> set tracked. active U now h' \<and> full_name h' = full_name h
               \<and> map_of (repos snap) (full_name h) = Some (repo_record U now h'))"
    using 4 by blast
  have c5: "distinct (map full_name tracked) \<longrightarrow>
            repos snap = map (\<lambda>h. (full_name h, repo_record U now h))
                           (filter (active U now) tracked)
            \<and> (\<forall>h \<in> set tracked. active U now h \<longrightarrow>
                  map_of (repos snap) (full_name h) =
                    Some \<lparr>rd_name = name h, rd_full_name = full_name h, rd_url = html_url h,
                          rd_description = description h, rd_stars = stargazers_count h,
                          rd_forks = forks_count h,
                          rd_periods = (\<lambda>p. Some (period_stats U now h p))\<rparr>)"
    using 5 by (rule impI)
  show ?thesis using s 1 c2 c3 c4 c5
    by - (rule exI[of _ snap], intro conjI; assumption)
qed


lemma demo_languages:
  "concat (map reported_languages [demo_repo, quiet_repo])
   = [(''Python'', 800), (''JavaScript'', 200), (''Python'', 50)]"
  by (simp add: reported_languages_def demo_repo_def quiet_repo_def)

theorem details_and_languages_witness:
  "get_user demo_github ''djok'' = Inr demo_user
   \<and> get_repos_to_track [] demo_github demo_user = Inr [demo_repo, quiet_repo]
   \<and> distinct (map full_name [demo_repo, quiet_repo])
   \<and> active ''djok'' demo_now demo_repo \<and> \<not> active ''djok'' demo_now quiet_repo
   \<and> (\<exists>snap. collect_all_metrics ''djok'' [] demo_github demo_now demo_clock = Inr snap
        \<and> map_of (repos snap) ''djok/quiet'' = None
        \<and> languages snap ''Python'' = Some 850
        \<and> languages snap ''JavaScript'' = Some 200
        \<and> languages snap ''Go'' = None
        \<and> map_of (repos snap) ''djok/me'' =
             Some \<lparr>rd_name = ''me'', rd_full_name = ''djok/me'',
                   rd_url = ''https://github.com/djok/me'', rd_description = None,
                   rd_stars = 3, rd_forks = 1,
                   rd_periods = (\<lambda>p. Some \<lparr>commits = 2, additions = 10, deletions = 2,
                                           files_changed = 2\<rparr>)\<rparr>)"
proof -
  note T = details_and_languages [OF demo_get_user demo_tracked, of demo_now demo_clock]
  from T obtain snap
    where s: "collect_all_metrics ''djok'' [] demo_github demo_now demo_clock = Inr snap"
      and n: "\<And>n. (\<forall>h \<in> set [demo_repo, quiet_repo]. full_name h = n \<longrightarrow>
                     \<not> active ''djok'' demo_now h) \<Longrightarrow> map_of (repos snap) n = None"
      and l: "\<And>l. languages snap l =
            (if l \<in> fst ` set (concat (map reported_languages [demo_repo, quiet_repo]))
             then Some (sum_list (map snd (filter (\<lambda>e. fst e = l)
                          (concat (map reported_languages [demo_repo, quiet_repo])))))
             else None)"
      and d: "distinct (map full_name [demo_repo, quiet_repo]) \<Longrightarrow>
            (\<forall>h \<in> set [demo_repo, quiet_repo]. active ''djok'' demo_now h \<longrightarrow>
                  map_of (repos snap) (full_name h) =
                    Some \<lparr>rd_name = name h, rd_full_name = full_name h, rd_url = html_url h,
                          rd_description = description h, rd_stars = stargazers_count h,
                          rd_forks = forks_count h,
                          rd_periods = (\<lambda>p. Some (period_stats ''djok'' demo_now h p))\<rparr>)"
    by blast
  have 1: "map_of (repos snap) ''djok/quiet'' = None"
    by (rule n) (simp add: quiet_inactive, simp add: demo_repo_def)
  have 2: "languages snap ''Python'' = Some 850" "languages snap ''JavaScript'' = Some 200"
      "languages snap ''Go'' = None"
    unfolding l demo_languages by simp_all
  have "map_of (repos snap) (full_name demo_repo) =
                    Some \<lparr>rd_name = name demo_repo, rd_full_name = full_name demo_repo,
                          rd_url = html_url demo_repo,
                          rd_description = description demo_repo,
                          rd_stars = stargazers_count demo_repo,
                          rd_forks = forks_count demo_repo,
                          rd_periods = (\<lambda>p. Some (period_stats ''djok'' demo_now demo_repo p))\<rparr>"
    using d[OF demo_distinct] demo_active by simp
  then have 3: "map_of (repos snap) ''djok/me'' =
             Some \<lparr>rd_name = ''me'', rd_full_name = ''djok/me'',
                   rd_url = ''https://github.com/djok/me'', rd_description = None,
                   rd_stars = 3, rd_forks = 1,
                   rd_periods = (\<lambda>p. Some \<lparr>commits = 2, additions = 10, deletions = 2,
                                           files_changed = 2\<rparr>)\<rparr>"
    unfolding demo_period_stats by (simp add: demo_repo_def)
  show ?thesis
    using demo_get_user demo_tracked demo_distinct demo_active quiet_inactive s 1 2 3
    by - (intro conjI exI[of _ snap]; assumption)
qed

lemma take_sorted_wrt: "sorted_wrt P xs \<Longrightarrow> sorted_wrt P (take n xs)"
  by (metis append_take_drop_id sorted_wrt_append)

text \<open>
  C3: the ranking has at most 10 entries; every entry has at least one commit in the year
  period and is the entry of an active repository of the run, and no repository with zero
  commits in the year period has its entry there; the entries are in descending order of
  the additions of the year period. The ranking is the first 10 of the stable descending
  sort of the candidates: a rearrangement of them in which entries with equal additions
  stand in the order of the candidates, which is the order of the detail mapping, that is
  the order in which the active repositories were first met.
\<close>

theorem top_repos_ranking:
  assumes "get_user g U = Inr user" and "get_repos_to_track R g user = Inr tracked"
  shows "\<exists>snap. collect_all_metrics U R g now clock = Inr snap
     \<and> length (top_repos snap) \<le> 10
     \<and> (\<forall>e \<in> set (top_repos snap). top_commits e \<ge> 1
            \<and> (\<exists>h \<in> set tracked. active U now h \<and> e = top_of U now h))
     \<and> (\<forall>h \<in> set tracked. commits (period_stats U now h Year) = 0 \<longrightarrow>
            top_of U now h \<notin> set (top_repos snap))
     \<and> sorted_wrt (\<lambda>a b. top_additions a \<ge> top_additions b) (top_repos snap)
     \<and> (\<exists>ranked.
            top_repos snap = take 10 ranked
            \<and> mset ranked = mset (map (top_of U now)
                  (filter (\<lambda>h. commits (period_stats U now h Year) > 0) (stored U now tracked)))
            \<and> sorted_wrt (\<lambda>a b. top_additions a \<ge> top_additions b) ranked
            \<and> (\<forall>k. filter (\<lambda>e. top_additions e = k) ranked
                   = filter (\<lambda>e. top_additions e = k) (map (top_of U now)
                       (filter (\<lambda>h. commits (period_stats U now h Year) > 0)
                          (stored U now tracked)))))
     \<and> map fst (repos snap) = map full_name (stored U now tracked)
     \<and> map full_name (stored U now tracked)
         = first_occurrences (map full_name (filter (active U now) tracked))
     \<and> (distinct (map full_name tracked) \<longrightarrow>
           stored U now tracked = filter (active U now) tracked)"
proof -
  let ?cands = "map (top_of U now)
                  (filter (\<lambda>h. commits (period_stats U now h Year) > 0) (stored U now tracked))"
  let ?ranked = "sorted_reverse top_additions ?cands"
  obtain snap where s: "collect_all_metrics U R g now clock = Inr snap"
    and rp: "repos snap = map (\<lambda>h. (full_name h, repo_record U now h)) (stored U now tracked)"
    and t: "top_repos snap = take 10 ?ranked"
    using collect_summary[OF assms, of now clock] by blast
  have 1: "length (top_repos snap) \<le> 10" by (simp add: t)
  have m: "e \<in> set ?cands" if "e \<in> set (top_repos snap)" for e
    using that set_take_subset[of 10 ?ranked] unfolding t set_sorted_reverse by blast
  have 2: "\<forall>e \<in> set (top_repos snap). top_commits e \<ge> 1
            \<and> (\<exists>h \<in> set tracked. active U now h \<and> e = top_of U now h)"
  proof
    fix e assume "e \<in> set (top_repos snap)"
    then have "e \<in> set ?cands" by (rule m)
    then obtain h where h: "h \<in> set (stored U now tracked)"
        "commits (period_stats U now h Year) > 0" "e = top_of U now h"
      by auto
    then show "top_commits e \<ge> 1 \<and> (\<exists>h \<in> set tracked. active U now h \<and> e = top_of U now h)"
      using stored_subset[OF h(1)] by (auto simp: top_of_def)
  qed
  have 3: "\<forall>h \<in> set tracked. commits (period_stats U now h Year) = 0 \<longrightarrow>
            top_of U now h \<notin> set (top_repos snap)"
  proof (intro ballI impI notI)
    fix h assume z: "commits (period_stats U now h Year) = 0"
      and "top_of U now h \<in> set (top_repos snap)"
    then have "top_commits (top_of U now h) \<ge> 1" using 2 by blast
    then show False using z by (simp add: top_of_def)
  qed
  have 4: "sorted_wrt (\<lambda>a b. top_additions a \<ge> top_additions b) (top_repos snap)"
    unfolding t by (rule take_sorted_wrt) (rule sorted_reverse_descending)
  have 5: "\<exists>ranked.
            top_repos snap = take 10 ranked
            \<and> mset ranked = mset ?cands
            \<and> sorted_wrt (\<lambda>a b. top_additions a \<ge> top_additions b) ranked
            \<and> (\<forall>k. filter (\<lambda>e. top_additions e = k) ranked
                   = filter (\<lambda>e. top_additions e = k) ?cands)"
    using t mset_sorted_reverse[of top_additions ?cands]
      sorted_reverse_descending[of top_additions ?cands]
      sorted_reverse_stable[of top_additions _ ?cands]
    by (intro exI[of _ ?ranked]) simp
  have 6: "map fst (repos snap) = map full_name (stored U now tracked)"
    by (simp add: rp comp_def)
  have 7: "map full_name (stored U now tracked)
         = first_occurrences (map full_name (filter (active U now) tracked))"
    by (rule stored_names)
  have 8: "distinct (map full_name tracked) \<longrightarrow>
           stored U now tracked = filter (active U now) tracked"
    using stored_distinct by blast
  show ?thesis using s 1 2 3 4 5 6 7 8
    by - (rule exI[of _ snap], intro conjI; assumption)
qed


theorem top_repos_ranking_witness:
  "get_user demo_github ''djok'' = Inr demo_user
   \<and> get_repos_to_track [] demo_github demo_user = Inr [demo_repo, quiet_repo]
   \<and> distinct (map full_name [demo_repo, quiet_repo])
   \<and> commits (period_stats ''djok'' demo_now quiet_repo Year) = 0
   \<and> (\<exists>snap. collect_all_metrics ''djok'' [] demo_github demo_now demo_clock = Inr snap
        \<and> top_repos snap =
            [\<lparr>top_name = ''djok/me'', top_url = ''https://github.com/djok/me'',
              top_commits = 2, top_additions = 10, top_deletions = 2\<rparr>]
        \<and> top_of ''djok'' demo_now quiet_repo \<notin> set (top_repos snap))"
proof -
  note T = top_repos_ranking [OF demo_get_user demo_tracked, of demo_now demo_clock]
  have q: "commits (period_stats ''djok'' demo_now quiet_repo Year) = 0"
    by (simp add: period_stats_def quiet_accumulated zero_stats_def)
  have f: "filter (active ''djok'' demo_now) [demo_repo, quiet_repo] = [demo_repo]"
    using demo_active quiet_inactive by simp
  from T obtain snap ranked
    where s: "collect_all_metrics ''djok'' [] demo_github demo_now demo_clock = Inr snap"
      and x: "\<forall>h \<in> set [demo_repo, quiet_repo].
                commits (period_stats ''djok'' demo_now h Year) = 0 \<longrightarrow>
                top_of ''djok'' demo_now h \<notin> set (top_repos snap)"
      and t: "top_repos snap = take 10 ranked"
      and m: "mset ranked = mset (map (top_of ''djok'' demo_now)
                  (filter (\<lambda>h. commits (period_stats ''djok'' demo_now h Year) > 0)
                     (stored ''djok'' demo_now [demo_repo, quiet_repo])))"
      and d: "distinct (map full_name [demo_repo, quiet_repo]) \<longrightarrow>
           stored ''djok'' demo_now [demo_repo, quiet_repo]
           = filter (active ''djok'' demo_now) [demo_repo, quiet_repo]"
    by blast
  have st: "stored ''djok'' demo_now [demo_repo, quiet_repo] = [demo_repo]"
    using d demo_distinct f by simp
  have "mset ranked = {#top_of ''djok'' demo_now demo_repo#}"
    unfolding m st by (simp add: demo_period_stats)
  then have "ranked = [top_of ''djok'' demo_now demo_repo]" by simp
  then have 1: "top_repos snap =
            [\<lparr>top_name = ''djok/me'', top_url = ''https://github.com/djok/me'',
              top_commits = 2, top_additions = 10, top_deletions = 2\<rparr>]"
    unfolding t by (simp add: top_of_def demo_period_stats) (simp add: demo_repo_def)
  have 2: "top_of ''djok'' demo_now quiet_repo \<notin> set (top_repos snap)"
    using x q by simp
  show ?thesis
    using demo_get_user demo_tracked demo_distinct q s 1 2
    by - (intro conjI exI[of _ snap]; assumption)
qed

section \<open>The claim about the repository enumerator\<close>

lemma add_unseen_inv: "tracking_inv tr \<Longrightarrow> tracking_inv (add_unseen r tr)"
  by (auto simp: tracking_inv_def add_unseen_def)

lemma for_repos_inv: "tracking_inv tr \<Longrightarrow> tracking_inv (fst (for_repos rs tr))"
  by (induction rs arbitrary: tr) (simp_all add: add_unseen_inv)

lemma for_orgs_inv: "tracking_inv tr \<Longrightarrow> tracking_inv (fst (for_orgs ogs tr))"
proof (induction ogs arbitrary: tr)
  case (Yield og ogs)
  show ?case
  proof (cases "org_get_repos og")
    case (Inl e)
    then show ?thesis using Yield.prems by simp
  next
    case (Inr rs)
    obtain tr' x where f: "for_repos rs tr = (tr', x)" by (cases "for_repos rs tr")
    have i: "tracking_inv tr'" using for_repos_inv[OF Yield.prems, of rs] f by simp
    show ?thesis using Inr f i Yield.IH[OF i] by (cases x) simp_all
  qed
qed simp_all

lemma fst_except_pass: "fst (except_pass oc) = fst oc"
  by (cases oc) (simp add: except_pass_def split: option.splits)

lemma discovery_distinct:
  "get_repos_to_track [] g user = Inr tracked \<Longrightarrow> distinct (map full_name tracked)"
proof -
  assume a: "get_repos_to_track [] g user = Inr tracked"
  have 0: "tracking_inv ([], {})" by (simp add: tracking_inv_def)
  have 1: "tracking_inv (fst (discover_own g ([], {})))"
    using for_repos_inv[OF 0] 0 by (simp add: discover_own_def split: sum.splits)
  have 2: "tracking_inv (fst (discover_orgs user (fst (discover_own g ([], {})))))"
    using for_orgs_inv[OF 1] 1 by (simp add: discover_orgs_def split: sum.splits)
  have "tracked = fst (fst (discover_orgs user (fst (discover_own g ([], {})))))"
    using a by (simp add: get_repos_to_track_def fst_except_pass)
  then show ?thesis using 2 by (simp add: tracking_inv_def)
qed

lemma strip_djok_me: "strip ''djok/me'' = ''djok/me''"
  by (simp add: strip_def whitespace_def)

lemma demo_explicit_tracked:
  "get_repos_to_track ''djok/me,djok/me'' demo_github demo_user = Inr [demo_repo, demo_repo]"
  by (simp add: get_repos_to_track_def resolve_def except_pass_def strip_djok_me
      demo_github_def)

text \<open>
  C5: with the explicit list \<^verbatim>\<open>djok/me,djok/me\<close> the enumerator resolves both entries and
  returns the repository twice: two repositories of the result have the same full
  identifier. The explicit branch adds each name to \<^verbatim>\<open>seen\<close> and never reads it. In the run
  on this list the summary counts the commits of the repository twice, while the detail
  mapping holds its record once.
\<close>

theorem explicit_list_keeps_duplicates:
  "get_repos_to_track ''djok/me,djok/me'' demo_github demo_user = Inr [demo_repo, demo_repo]
   \<and> map full_name [demo_repo, demo_repo] = [''djok/me'', ''djok/me'']
   \<and> \<not> distinct (map full_name [demo_repo, demo_repo])"
  using demo_explicit_tracked by (simp add: demo_repo_def)

lemma repeated_entry_counted_twice:
  "\<exists>snap. collect_all_metrics ''djok'' ''djok/me,djok/me'' demo_github demo_now clock = Inr snap
     \<and> get_key Commits (summary snap Year) = 4
     \<and> repos snap = [(''djok/me'', repo_record ''djok'' demo_now demo_repo)]
     \<and> map_option commits (rd_periods (repo_record ''djok'' demo_now demo_repo) Year) = Some 2"
proof -
  have t: "get_repos_to_track ''djok/me,djok/me'' demo_github demo_user = Inr [demo_repo, demo_repo]"
    by (rule demo_explicit_tracked)
  obtain snap
    where s: "collect_all_metrics ''djok'' ''djok/me,djok/me'' demo_github demo_now clock = Inr snap"
      and a: "\<And>p key. get_key key (summary snap p)
           = sum_list (map (\<lambda>h. get_key key (period_stats ''djok'' demo_now h p))
                         [demo_repo, demo_repo])"
      and rp: "repos snap = map (\<lambda>h. (full_name h, repo_record ''djok'' demo_now h))
                              (stored ''djok'' demo_now [demo_repo, demo_repo])"
    using collect_summary[OF demo_get_user t, of demo_now clock] by blast
  have st: "stored ''djok'' demo_now [demo_repo, demo_repo] = [demo_repo]"
    by (simp add: stored_def demo_active)
  have 1: "get_key Commits (summary snap Year) = 4"
    unfolding a by (simp add: demo_period_stats)
  have 2: "repos snap = [(''djok/me'', repo_record ''djok'' demo_now demo_repo)]"
    unfolding rp st by (simp add: demo_repo_def)
  have 3: "map_option commits (rd_periods (repo_record ''djok'' demo_now demo_repo) Year) = Some 2"
    by (simp add: repo_record_def demo_period_stats)
  show ?thesis using s 1 2 3 by blast
qed

text \<open>
  C1: on the explicit list \<^verbatim>\<open>djok/me,djok/me\<close> the assembled snapshot breaks the invariant.
  The repository is processed twice, so the summary of the year counts 4 commits, while the
  detail mapping holds the one record of the one active repository, with 2 commits in the
  year: the total is not the sum over the active repositories. The cause is the missing
  deduplication of the explicit list (C5).
\<close>

theorem summary_counts_repeated_entry_twice:
  "\<exists>snap. collect_all_metrics ''djok'' ''djok/me,djok/me'' demo_github demo_now demo_clock = Inr snap
     \<and> get_key Commits (summary snap Year) = 4
     \<and> map fst (repos snap) = [''djok/me'']
     \<and> sum_list (map (\<lambda>data. case rd_periods data Year of
                                   Some st \<Rightarrow> get_key Commits st | None \<Rightarrow> 0)
                     (map snd (repos snap))) = 2"
proof -
  obtain snap
    where s: "collect_all_metrics ''djok'' ''djok/me,djok/me'' demo_github demo_now demo_clock
              = Inr snap"
      and a: "get_key Commits (summary snap Year) = 4"
      and b: "repos snap = [(''djok/me'', repo_record ''djok'' demo_now demo_repo)]"
    using repeated_entry_counted_twice[of demo_clock] by blast
  have c: "map fst (repos snap) = [''djok/me'']" by (simp add: b)
  have d: "sum_list (map (\<lambda>data. case rd_periods data Year of
                                   Some st \<Rightarrow> get_key Commits st | None \<Rightarrow> 0)
                     (map snd (repos snap))) = 2"
    by (simp add: b repo_record_def demo_period_stats)
  show ?thesis using s a c d by - (rule exI[of _ snap], intro conjI; assumption)
qed

section \<open>The claim about the markdown table\<close>

lemma format_number_Inr: "\<exists>s. format_number n = Inr s"
  by (simp add: format_number_def truediv_def)

lemma period_row_Inr: "\<exists>row. period_row label st = Inr row"
proof -
  obtain a where a: "format_number (int (additions st)) = Inr a"
    using format_number_Inr by blast
  obtain d where d: "format_number (int (deletions st)) = Inr d"
    using format_number_Inr by blast
  obtain n where n: "format_number (int (additions st) - int (deletions st)) = Inr n"
    using format_number_Inr by blast
  show ?thesis by (simp add: period_row_def a d n)
qed

lemma for_top_repos_Inr: "\<exists>rows. for_top_repos rs readme = Inr (readme @ rows)"
proof (induction rs arbitrary: readme)
  case (Cons r rs)
  obtain a where a: "format_number (int (top_additions r)) = Inr a"
    using format_number_Inr by blast
  obtain d where d: "format_number (int (top_deletions r)) = Inr d"
    using format_number_Inr by blast
  let ?row = "''| ['' @ last_segment (top_name r) @ '']('' @ top_url r @ '') | ''
                    @ str (int (top_commits r)) @ '' | +'' @ a @ '' | -'' @ d @ '' |'' @ nl"
  obtain rows where "for_top_repos rs (readme @ ?row) = Inr ((readme @ ?row) @ rows)"
    using Cons.IH by blast
  then have "for_top_repos (r # rs) readme = Inr (readme @ (?row @ rows))"
    by (simp add: a d)
  then show ?case by blast
qed simp

lemma month_row:
  "period_row ''Month'' \<lparr>commits = 12, additions = 340, deletions = 55, files_changed = 8\<rparr>
   = Inr ''| Month | 12 | +340 | -55 | 285 |''"
  by code_simp

text \<open>
  C9: for a snapshot whose summary of the month is 12 commits, 340 additions, 55 deletions
  and 8 files, the row of the month is the label cell \<^verbatim>\<open>| Month\<close> followed by
  \<^verbatim>\<open>| 12 | +340 | -55 | 285 |\<close>, and the generated markdown is the title, the line of the
  user, the head of the table, the rows of today and of the week, this row of the month on
  a line of its own, the row of the year, the head of the repository table, its rows and the
  closing lines.
\<close>

theorem month_row_of_readme:
  assumes "m_summary m Month = \<lparr>commits = 12, additions = 340, deletions = 55, files_changed = 8\<rparr>"
  shows "period_row ''Month'' (m_summary m Month) = Inr (''| Month '' @ ''| 12 | +340 | -55 | 285 |'')
     \<and> format_number 340 = Inr ''340'' \<and> format_number 55 = Inr ''55''
     \<and> format_number (340 - 55) = Inr ''285''
     \<and> (\<exists>today week year rows.
           period_row ''Today'' (m_summary m Today) = Inr today
           \<and> period_row ''Week'' (m_summary m Week) = Inr week
           \<and> period_row ''Year'' (m_summary m Year) = Inr year
           \<and> generate_readme m =
               Inr (''# '' @ [CHR 0xF0, CHR 0x9F, CHR 0x93, CHR 0x8A] @ '' Code Metrics Dashboard''
                      @ [CHR 0x0A]
                    @ [CHR 0x0A]
                    @ ''> **@'' @ m_username m @ ''** '' @ [CHR 0xC2, CHR 0xB7] @ '' Updated: ''
                      @ map (\<lambda>c. if c = CHR ''T'' then CHR '' '' else c) (take 16 (m_updated_at m))
                      @ '' UTC'' @ [CHR 0x0A]
                    @ [CHR 0x0A]
                    @ ''| Period | Commits | Additions | Deletions | Net |'' @ [CHR 0x0A]
                    @ ''|--------|---------|-----------|-----------|-----|'' @ [CHR 0x0A]
                    @ today @ [CHR 0x0A]
                    @ week @ [CHR 0x0A]
                    @ ''| Month | 12 | +340 | -55 | 285 |'' @ [CHR 0x0A]
                    @ year @ [CHR 0x0A]
                    @ [CHR 0x0A]
                    @ ''## Top Repositories'' @ [CHR 0x0A]
                    @ [CHR 0x0A]
                    @ ''| Repository | Commits | ++ | -- |'' @ [CHR 0x0A]
                    @ ''|------------|---------|----|----|'' @ [CHR 0x0A]
                    @ rows
                    @ [CHR 0x0A] @ ''---'' @ [CHR 0x0A]
                    @ [CHR 0xF0, CHR 0x9F, CHR 0x94, CHR 0x97] @ '' [View Dashboard](../../) ''
                      @ [CHR 0xC2, CHR 0xB7] @ '' '' @ [CHR 0xF0, CHR 0x9F, CHR 0xA4, CHR 0x96]
                      @ '' Auto-updated daily'' @ [CHR 0x0A]))"
proof -
  have 1: "period_row ''Month'' (m_summary m Month) = Inr ''| Month | 12 | +340 | -55 | 285 |''"
    unfolding assms by (rule month_row)
  have 2: "format_number 340 = Inr ''340''" "format_number 55 = Inr ''55''"
      "format_number (340 - 55) = Inr ''285''"
    by code_simp+
  obtain today where t: "period_row ''Today'' (m_summary m Today) = Inr today"
    using period_row_Inr by blast
  obtain week where w: "period_row ''Week'' (m_summary m Week) = Inr week"
    using period_row_Inr by blast
  obtain year where y: "period_row ''Year'' (m_summary m Year) = Inr year"
    using period_row_Inr by blast
  obtain rows where r: "for_top_repos (take 10 (m_top_repos m))
        (readme_head m today week ''| Month | 12 | +340 | -55 | 285 |'' year)
      = Inr (readme_head m today week ''| Month | 12 | +340 | -55 | 285 |'' year @ rows)"
    using for_top_repos_Inr by blast
  have "generate_readme m =
               Inr (readme_head m today week ''| Month | 12 | +340 | -55 | 285 |'' year
                    @ rows @ readme_foot)"
    by (simp add: generate_readme_def t w y 1 r)
  then have g: "generate_readme m =
               Inr (''# '' @ [CHR 0xF0, CHR 0x9F, CHR 0x93, CHR 0x8A] @ '' Code Metrics Dashboard''
                      @ [CHR 0x0A]
                    @ [CHR 0x0A]
                    @ ''> **@'' @ m_username m @ ''** '' @ [CHR 0xC2, CHR 0xB7] @ '' Updated: ''
                      @ map (\<lambda>c. if c = CHR ''T'' then CHR '' '' else c) (take 16 (m_updated_at m))
                      @ '' UTC'' @ [CHR 0x0A]
                    @ [CHR 0x0A]
                    @ ''| Period | Commits | Additions | Deletions | Net |'' @ [CHR 0x0A]
                    @ ''|--------|---------|-----------|-----------|-----|'' @ [CHR 0x0A]
                    @ today @ [CHR 0x0A]
                    @ week @ [CHR 0x0A]
                    @ ''| Month | 12 | +340 | -55 | 285 |'' @ [CHR 0x0A]
                    @ year @ [CHR 0x0A]
                    @ [CHR 0x0A]
                    @ ''## Top Repositories'' @ [CHR 0x0A]
                    @ [CHR 0x0A]
                    @ ''| Repository | Commits | ++ | -- |'' @ [CHR 0x0A]
                    @ ''|------------|---------|----|----|'' @ [CHR 0x0A]
                    @ rows
                    @ [CHR 0x0A] @ ''---'' @ [CHR 0x0A]
                    @ [CHR 0xF0, CHR 0x9F, CHR 0x94, CHR 0x97] @ '' [View Dashboard](../../) ''
                      @ [CHR 0xC2, CHR 0xB7] @ '' '' @ [CHR 0xF0, CHR 0x9F, CHR 0xA4, CHR 0x96]
                      @ '' Auto-updated daily'' @ [CHR 0x0A])"
    by (simp add: readme_head_def readme_foot_def nl_def middle_dot_def replace_char_def Let_def)
  have "\<exists>today week year rows.
           period_row ''Today'' (m_summary m Today) = Inr today
           \<and> period_row ''Week'' (m_summary m Week) = Inr week
           \<and> period_row ''Year'' (m_summary m Year) = Inr year
           \<and> generate_readme m =
               Inr (''# '' @ [CHR 0xF0, CHR 0x9F, CHR 0x93, CHR 0x8A] @ '' Code Metrics Dashboard''
                      @ [CHR 0x0A]
                    @ [CHR 0x0A]
                    @ ''> **@'' @ m_username m @ ''** '' @ [CHR 0xC2, CHR 0xB7] @ '' Updated: ''
                      @ map (\<lambda>c. if c = CHR ''T'' then CHR '' '' else c) (take 16 (m_updated_at m))
                      @ '' UTC'' @ [CHR 0x0A]
                    @ [CHR 0x0A]
                    @ ''| Period | Commits | Additions | Deletions | Net |'' @ [CHR 0x0A]
                    @ ''|--------|---------|-----------|-----------|-----|'' @ [CHR 0x0A]
                    @ today @ [CHR 0x0A]
                    @ week @ [CHR 0x0A]
                    @ ''| Month | 12 | +340 | -55 | 285 |'' @ [CHR 0x0A]
                    @ year @ [CHR 0x0A]
                    @ [CHR 0x0A]
                    @ ''## Top Repositories'' @ [CHR 0x0A]
                    @ [CHR 0x0A]
                    @ ''| Repository | Commits | ++ | -- |'' @ [CHR 0x0A]
                    @ ''|------------|---------|----|----|'' @ [CHR 0x0A]
                    @ rows
                    @ [CHR 0x0A] @ ''---'' @ [CHR 0x0A]
                    @ [CHR 0xF0, CHR 0x9F, CHR 0x94, CHR 0x97] @ '' [View Dashboard](../../) ''
                      @ [CHR 0xC2, CHR 0xB7] @ '' '' @ [CHR 0xF0, CHR 0x9F, CHR 0xA4, CHR 0x96]
                      @ '' Auto-updated daily'' @ [CHR 0x0A])"
    by (rule exI[of _ today], rule exI[of _ week], rule exI[of _ year], rule exI[of _ rows])
       (intro conjI t w y g)
  then show ?thesis using 1 2 by simp
qed

theorem month_row_of_readme_witness:
  "m_summary demo_metrics Month
     = \<lparr>commits = 12, additions = 340, deletions = 55, files_changed = 8\<rparr>
   \<and> period_row ''Month'' (m_summary demo_metrics Month)
     = Inr ''| Month | 12 | +340 | -55 | 285 |''
   \<and> generate_readme demo_metrics =
       Inr (''# '' @ [CHR 0xF0, CHR 0x9F, CHR 0x93, CHR 0x8A] @ '' Code Metrics Dashboard''
              @ [CHR 0x0A]
            @ [CHR 0x0A]
            @ ''> **@djok** '' @ [CHR 0xC2, CHR 0xB7] @ '' Updated: 2026-11-04 23:00 UTC''
              @ [CHR 0x0A]
            @ [CHR 0x0A]
            @ ''| Period | Commits | Additions | Deletions | Net |'' @ [CHR 0x0A]
            @ ''|--------|---------|-----------|-----------|-----|'' @ [CHR 0x0A]
            @ ''| Today | 0 | +0 | -0 | 0 |'' @ [CHR 0x0A]
            @ ''| Week | 0 | +0 | -0 | 0 |'' @ [CHR 0x0A]
            @ ''| Month | 12 | +340 | -55 | 285 |'' @ [CHR 0x0A]
            @ ''| Year | 0 | +0 | -0 | 0 |'' @ [CHR 0x0A]
            @ [CHR 0x0A]
            @ ''## Top Repositories'' @ [CHR 0x0A]
            @ [CHR 0x0A]
            @ ''| Repository | Commits | ++ | -- |'' @ [CHR 0x0A]
            @ ''|------------|---------|----|----|'' @ [CHR 0x0A]
            @ ''| [me](https://github.com/djok/me) | 12 | +340 | -55 |'' @ [CHR 0x0A]
            @ [CHR 0x0A] @ ''---'' @ [CHR 0x0A]
            @ [CHR 0xF0, CHR 0x9F, CHR 0x94, CHR 0x97] @ '' [View Dashboard](../../) ''
              @ [CHR 0xC2, CHR 0xB7] @ '' '' @ [CHR 0xF0, CHR 0x9F, CHR 0xA4, CHR 0x96]
              @ '' Auto-updated daily'' @ [CHR 0x0A])"
proof -
  have a: "m_summary demo_metrics Month
     = \<lparr>commits = 12, additions = 340, deletions = 55, files_changed = 8\<rparr>"
    by (simp add: demo_metrics_def)
  have full: "generate_readme demo_metrics =
       Inr (''# '' @ [CHR 0xF0, CHR 0x9F, CHR 0x93, CHR 0x8A] @ '' Code Metrics Dashboard''
              @ [CHR 0x0A]
            @ [CHR 0x0A]
            @ ''> **@djok** '' @ [CHR 0xC2, CHR 0xB7] @ '' Updated: 2026-11-04 23:00 UTC''
              @ [CHR 0x0A]
            @ [CHR 0x0A]
            @ ''| Period | Commits | Additions | Deletions | Net |'' @ [CHR 0x0A]
            @ ''|--------|---------|-----------|-----------|-----|'' @ [CHR 0x0A]
            @ ''| Today | 0 | +0 | -0 | 0 |'' @ [CHR 0x0A]
            @ ''| Week | 0 | +0 | -0 | 0 |'' @ [CHR 0x0A]
            @ ''| Month | 12 | +340 | -55 | 285 |'' @ [CHR 0x0A]
            @ ''| Year | 0 | +0 | -0 | 0 |'' @ [CHR 0x0A]
            @ [CHR 0x0A]
            @ ''## Top Repositories'' @ [CHR 0x0A]
            @ [CHR 0x0A]
            @ ''| Repository | Commits | ++ | -- |'' @ [CHR 0x0A]
            @ ''|------------|---------|----|----|'' @ [CHR 0x0A]
            @ ''| [me](https://github.com/djok/me) | 12 | +340 | -55 |'' @ [CHR 0x0A]
            @ [CHR 0x0A] @ ''---'' @ [CHR 0x0A]
            @ [CHR 0xF0, CHR 0x9F, CHR 0x94, CHR 0x97] @ '' [View Dashboard](../../) ''
              @ [CHR 0xC2, CHR 0xB7] @ '' '' @ [CHR 0xF0, CHR 0x9F, CHR 0xA4, CHR 0x96]
              @ '' Auto-updated daily'' @ [CHR 0x0A])"
    by code_simp
  have "period_row ''Month'' (m_summary demo_metrics Month)
     = Inr ''| Month | 12 | +340 | -55 | 285 |''"
    using month_row_of_readme [OF a] by simp
  then show ?thesis using a full by - (intro conjI; assumption)
qed

section \<open>The claim about the top languages\<close>

lemma lang_entries_Inr:
  "0 < tb \<Longrightarrow> \<exists>es. lang_entries tb ls = Inr es"
proof (induction ls)
  case (Cons l ls)
  then obtain es where "lang_entries tb ls = Inr es" by blast
  then show ?case using Cons.prems by (simp add: truediv_def)
qed simp

lemma lang_entries_props:
  "lang_entries tb ls = Inr es \<Longrightarrow>
   map (\<lambda>e. (lang_name e, lang_bytes e)) es = ls
   \<and> (\<forall>e \<in> set es. percent e = round1 (fmul (fl (of_nat (lang_bytes e) / of_nat tb)) 100))"
proof (induction ls arbitrary: es)
  case (Cons l ls)
  then show ?case
    by (auto simp: truediv_def split: sum.splits if_splits)
qed simp

lemma lang_entries_zero: "ls \<noteq> [] \<Longrightarrow> lang_entries 0 ls = Inl ZeroDivisionError"
  by (cases ls) (simp_all add: truediv_def)

lemma sorted_wrt_take_drop:
  assumes "sorted_wrt P xs" "x \<in> set (take n xs)" "y \<in> set (drop n xs)"
  shows "P x y"
proof -
  have "sorted_wrt P (take n xs @ drop n xs)" using assms(1) by simp
  then show ?thesis using assms(2,3) unfolding sorted_wrt_append by blast
qed

lemma python_javascript:
  "lang_data [(''Python'', 800), (''JavaScript'', 200)]
   = Inr [\<lparr>lang_name = ''Python'', lang_bytes = 800, percent = 80\<rparr>,
          \<lparr>lang_name = ''JavaScript'', lang_bytes = 200, percent = 20\<rparr>]"
  by code_simp

text \<open>
  C8 as stated fails: for three languages of 3336, 3336 and 3328 bytes the displayed
  percentages are the floats nearest to 33.4, 33.4 and 33.3, and their sum is not at most
  100.
\<close>

theorem percent_sum_counterexample:
  "lang_data [(''Python'', 3336), (''Go'', 3336), (''Shell'', 3328)]
   = Inr [\<lparr>lang_name = ''Python'', lang_bytes = 3336,
            percent = 4700632111067955 / 140737488355328\<rparr>,
          \<lparr>lang_name = ''Go'', lang_bytes = 3336,
            percent = 4700632111067955 / 140737488355328\<rparr>,
          \<lparr>lang_name = ''Shell'', lang_bytes = 3328,
            percent = 2343279181116211 / 70368744177664\<rparr>]
   \<and> \<not> (4700632111067955 / 140737488355328 + 4700632111067955 / 140737488355328
          + 2343279181116211 / 70368744177664 \<le> (100 :: rat))
   \<and> 4700632111067955 / 140737488355328 = fl (334 / 10)
   \<and> 2343279181116211 / 70368744177664 = fl (333 / 10)"
  by code_simp

lemma round_half_even_error: "\<bar>of_int (round_half_even q) - q\<bar> \<le> 1 / 2"
proof -
  have "of_int \<lfloor>q\<rfloor> \<le> q" "q < of_int \<lfloor>q\<rfloor> + 1" by linarith+
  then show ?thesis by (auto simp: round_half_even_def Let_def)
qed

lemma round_half_even_nonneg: "0 \<le> q \<Longrightarrow> 0 \<le> round_half_even q"
  by (auto simp: round_half_even_def Let_def)

lemma binade_le:
  assumes "0 < x"
  shows "2 powi (binade x) \<le> x"
proof -
  obtain a b where ab: "quotient_of x = (a, b)" by (cases "quotient_of x")
  have b: "0 < b" using quotient_of_denom_pos[OF ab] .
  have x: "x = of_int a / of_int b" using quotient_of_div[OF ab] .
  have a: "0 < a" using assms b unfolding x by (simp add: zero_less_divide_iff)
  let ?k = "bitlen a - bitlen b"
  show ?thesis
  proof (cases "2 powi ?k \<le> x")
    case True
    then show ?thesis by (simp add: binade_def ab)
  next
    case False
    have la: "1 \<le> bitlen a" and lb: "1 \<le> bitlen b"
      using a b by (simp_all add: bitlen_alt_def)
    have A: "(2::int) ^ nat (bitlen a - 1) \<le> a" and B: "b < 2 ^ nat (bitlen b)"
      using bitlen_bounds[OF a] bitlen_bounds[OF b] by auto
    have A': "(2::rat) ^ nat (bitlen a - 1) \<le> of_int a"
      using A by (metis of_int_le_iff of_int_numeral of_int_power)
    have B': "(of_int b :: rat) \<le> 2 ^ nat (bitlen b)"
      using B by (metis less_imp_le of_int_le_iff of_int_numeral of_int_power)
    have "?k - 1 = (bitlen a - 1) - bitlen b" by simp
    then have "(2::rat) powi (?k - 1) = 2 powi ((bitlen a - 1) - bitlen b)"
      by (rule arg_cong)
    also have "\<dots> = 2 powi (bitlen a - 1) / 2 powi (bitlen b)"
      by (rule power_int_diff) simp
    also have "\<dots> = 2 ^ nat (bitlen a - 1) / 2 ^ nat (bitlen b)"
      using la lb by (simp add: power_int_def)
    also have "\<dots> \<le> of_int a / of_int b"
      using A' B' a b by (intro frac_le) auto
    finally have "(2::rat) powi (?k - 1) \<le> x" unfolding x .
    moreover have "binade x = ?k - 1" using False by (simp add: binade_def ab)
    ultimately show ?thesis by simp
  qed
qed

lemma fl_error:
  assumes "0 < x"
  shows "\<bar>fl x - x\<bar> \<le> x * ulp_half"
proof -
  let ?e = "binade x - 52"
  let ?s = "x / 2 powi ?e"
  have p: "(0::rat) < 2 powi ?e" by simp
  have "fl x - x = (of_int (round_half_even ?s) - ?s) * 2 powi ?e"
    using assms by (simp add: fl_def Let_def algebra_simps)
  then have "\<bar>fl x - x\<bar> = \<bar>of_int (round_half_even ?s) - ?s\<bar> * 2 powi ?e"
    by (simp add: abs_mult)
  also have "\<dots> \<le> 1 / 2 * 2 powi ?e"
    using round_half_even_error[of ?s] p by (intro mult_right_mono) auto
  also have "\<dots> = 2 powi (binade x) * ulp_half"
  proof -
    have "(2::rat) powi ?e = 2 powi (binade x) / 2 powi 52"
      by (rule power_int_diff) simp
    moreover have "(2::rat) powi 52 = 2 ^ 52"
      by (simp add: power_int_def)
    ultimately show ?thesis by (simp add: ulp_half_def)
  qed
  also have "\<dots> \<le> x * ulp_half"
    using binade_le[OF assms] by (intro mult_right_mono) (auto simp: ulp_half_def)
  finally show ?thesis .
qed

lemma fl_nonneg: "0 \<le> x \<Longrightarrow> 0 \<le> fl x"
  by (cases "x = 0")
     (auto simp: fl_def Let_def intro!: mult_nonneg_nonneg round_half_even_nonneg)

lemma fl_upper: "0 \<le> x \<Longrightarrow> fl x \<le> x * (1 + ulp_half)"
proof (cases "x = 0")
  case True
  then show ?thesis by (simp add: fl_def)
next
  case False
  assume "0 \<le> x"
  then have "0 < x" using False by simp
  then show ?thesis using fl_error[of x] by (simp add: algebra_simps abs_le_iff)
qed


lemma percent_upper:
  assumes "0 \<le> s"
  shows "round1 (fmul (fl s) 100) \<le> (100 * s * (1 + ulp_half)\<^sup>2 + 1 / 20) * (1 + ulp_half)"
proof -
  let ?c = "1 + ulp_half"
  have c: "0 \<le> ?c" by (simp add: ulp_half_def)
  let ?q = "fl s"
  let ?y = "fl (?q * 100)"
  let ?t = "round_half_even (?y * 10)"
  have q0: "0 \<le> ?q" using assms by (rule fl_nonneg)
  have q1: "?q \<le> s * ?c" using assms by (rule fl_upper)
  have y0: "0 \<le> ?y" using q0 by (intro fl_nonneg) simp
  have "?y \<le> (?q * 100) * ?c" using q0 by (intro fl_upper) simp
  also have "\<dots> \<le> ((s * ?c) * 100) * ?c"
    using q1 c by (intro mult_right_mono) auto
  finally have y1: "?y \<le> 100 * s * ?c\<^sup>2" by (simp add: power2_eq_square algebra_simps)
  have t0: "0 \<le> ?t" using y0 by (intro round_half_even_nonneg) simp
  have "of_int ?t \<le> ?y * 10 + 1 / 2"
    using round_half_even_error[of "?y * 10"] by linarith
  then have t1: "of_int ?t / 10 \<le> ?y + 1 / 20" by simp
  have "round1 (fmul (fl s) 100) = fl (of_int ?t / 10)"
    by (simp add: round1_def fmul_def)
  also have "\<dots> \<le> (of_int ?t / 10) * ?c" using t0 by (intro fl_upper) simp
  also have "\<dots> \<le> (?y + 1 / 20) * ?c" using t1 c by (intro mult_right_mono) auto
  also have "\<dots> \<le> (100 * s * ?c\<^sup>2 + 1 / 20) * ?c"
    using y1 c by (intro mult_right_mono) auto
  finally show ?thesis .
qed

lemma lang_entries_sum:
  assumes "lang_entries tb ls = Inr es" "0 < tb"
  shows "sum_list (map percent es)
         \<le> (100 * (of_nat (sum_list (map snd ls)) / of_nat tb) * (1 + ulp_half)\<^sup>2
              + of_nat (length ls) / 20) * (1 + ulp_half)"
  using assms(1)
proof (induction ls arbitrary: es)
  case Nil
  then show ?case by simp
next
  case (Cons l ls)
  let ?c = "1 + ulp_half"
  obtain rest where r: "lang_entries tb ls = Inr rest"
    using lang_entries_Inr[OF assms(2)] by blast
  have es: "es = \<lparr>lang_name = fst l, lang_bytes = snd l,
                  percent = round1 (fmul (fl (of_nat (snd l) / of_nat tb)) 100)\<rparr> # rest"
    using Cons.prems r assms(2) by (simp add: truediv_def)
  have p: "round1 (fmul (fl (of_nat (snd l) / of_nat tb)) 100)
           \<le> (100 * (of_nat (snd l) / of_nat tb) * ?c\<^sup>2 + 1 / 20) * ?c"
    by (rule percent_upper) simp
  have "sum_list (map percent es)
        \<le> (100 * (of_nat (snd l) / of_nat tb) * ?c\<^sup>2 + 1 / 20) * ?c
           + (100 * (of_nat (sum_list (map snd ls)) / of_nat tb) * ?c\<^sup>2
              + of_nat (length ls) / 20) * ?c"
    unfolding es using p Cons.IH[OF r] by simp
  also have "\<dots> = (100 * (of_nat (sum_list (map snd (l # ls))) / of_nat tb) * ?c\<^sup>2
              + of_nat (length (l # ls)) / 20) * ?c"
    by (simp add: algebra_simps add_divide_distrib)
  finally show ?case .
qed

lemma sum_list_take_le: "sum_list (take n (xs :: nat list)) \<le> sum_list xs"
proof -
  have "sum_list xs = sum_list (take n xs) + sum_list (drop n xs)"
    by (metis append_take_drop_id sum_list_append)
  then show ?thesis by simp
qed

lemma sum_list_sorted_reverse: "sum_list (map snd (sorted_reverse snd (ls :: ('a \<times> nat) list))) = sum_list (map snd ls)"
proof -
  have "mset (map snd (sorted_reverse snd ls)) = mset (map snd ls)"
    by (simp add: mset_sorted_reverse)
  then show ?thesis by (metis sum_mset_sum_list)
qed

lemma percent_sum_bound:
  assumes "lang_data langs = Inr es"
  shows "sum_list (map percent es) < 10031 / 100"
proof (cases "langs = []")
  case True
  then show ?thesis using assms by (simp add: lang_data_def sorted_reverse_def)
next
  case False
  let ?tb = "sum_list (map snd langs)"
  let ?ls = "take 6 (sorted_reverse snd langs)"
  let ?c = "1 + ulp_half"
  have e: "lang_entries ?tb ?ls = Inr es" using assms False by (simp add: lang_data_def)
  have "length (sorted_reverse snd langs) = length langs" by (rule length_sorted_reverse)
  then have "sorted_reverse snd langs \<noteq> []" using False by auto
  then have ne: "?ls \<noteq> []" by simp
  have tb: "0 < ?tb"
  proof (rule ccontr)
    assume "\<not> 0 < ?tb"
    then have z: "?tb = 0" by simp
    have "lang_entries ?tb ?ls = Inl ZeroDivisionError"
      unfolding z by (rule lang_entries_zero[OF ne])
    then show False using e by simp
  qed
  have "sum_list (map snd ?ls) \<le> sum_list (map snd (sorted_reverse snd langs))"
    unfolding take_map[symmetric] by (rule sum_list_take_le)
  then have le: "sum_list (map snd ?ls) \<le> ?tb" by (simp add: sum_list_sorted_reverse)
  have share: "(of_nat (sum_list (map snd ?ls)) / of_nat ?tb :: rat) \<le> 1"
    using le tb by simp
  have len: "(of_nat (length ?ls) :: rat) \<le> 6" by simp
  have c: "0 \<le> ?c" by (simp add: ulp_half_def)
  have "sum_list (map percent es)
         \<le> (100 * (of_nat (sum_list (map snd ?ls)) / of_nat ?tb) * ?c\<^sup>2
              + of_nat (length ?ls) / 20) * ?c"
    by (rule lang_entries_sum[OF e tb])
  also have "\<dots> \<le> (100 * 1 * ?c\<^sup>2 + 6 / 20) * ?c"
    using share len c
    by (intro mult_right_mono add_mono mult_left_mono divide_right_mono) auto
  also have "\<dots> < 10031 / 100" by (simp add: ulp_half_def power2_eq_square)
  finally show ?thesis .
qed


text \<open>
  C8, amended: the top-language list is the first 6 of the languages in descending order of
  bytes (languages of equal size in the order of the mapping), so no language left out is
  larger than one displayed; each entry carries
  \<^verbatim>\<open>round(bytes / total_bytes * 100, 1)\<close>, with \<^verbatim>\<open>total_bytes\<close> the sum of all language bytes,
  or 1 for the empty mapping; the list is produced whenever the mapping is empty or the sum
  is positive; the displayed percentages sum to less than 100.31 (each is a share rounded
  to one decimal, which can push the sum above 100); and the mapping
  \<^verbatim>\<open>{Python: 800, JavaScript: 200}\<close> yields Python with 80.0 and JavaScript with 20.0.
\<close>

theorem top_languages:
  "(\<forall>es. lang_data langs = Inr es \<longrightarrow>
       length es \<le> 6
       \<and> map (\<lambda>e. (lang_name e, lang_bytes e)) es = take 6 (sorted_reverse snd langs)
       \<and> sorted_wrt (\<lambda>a b. lang_bytes a \<ge> lang_bytes b) es
       \<and> (\<forall>l \<in> set langs. l \<notin> set (map (\<lambda>e. (lang_name e, lang_bytes e)) es) \<longrightarrow>
              (\<forall>e \<in> set es. snd l \<le> lang_bytes e))
       \<and> (\<forall>e \<in> set es. percent e =
              round1 (fmul (fl (of_nat (lang_bytes e)
                / of_nat (if langs \<noteq> [] then sum_list (map snd langs) else 1))) 100))
       \<and> sum_list (map percent es) < 10031 / 100)
   \<and> (langs = [] \<or> 0 < sum_list (map snd langs) \<longrightarrow> (\<exists>es. lang_data langs = Inr es))
   \<and> lang_data [(''Python'', 800), (''JavaScript'', 200)]
       = Inr [\<lparr>lang_name = ''Python'', lang_bytes = 800, percent = 80\<rparr>,
              \<lparr>lang_name = ''JavaScript'', lang_bytes = 200, percent = 20\<rparr>]"
proof -
  let ?tb = "if langs \<noteq> [] then sum_list (map snd langs) else 1"
  let ?sorted = "sorted_reverse snd langs"
  let ?shown = "\<lambda>es. map (\<lambda>e. (lang_name e, lang_bytes e)) es"
  have A: "length es \<le> 6
       \<and> ?shown es = take 6 ?sorted
       \<and> sorted_wrt (\<lambda>a b. lang_bytes a \<ge> lang_bytes b) es
       \<and> (\<forall>l \<in> set langs. l \<notin> set (?shown es) \<longrightarrow> (\<forall>e \<in> set es. snd l \<le> lang_bytes e))
       \<and> (\<forall>e \<in> set es. percent e = round1 (fmul (fl (of_nat (lang_bytes e) / of_nat ?tb)) 100))
       \<and> sum_list (map percent es) < 10031 / 100"
    if h: "lang_data langs = Inr es" for es
  proof -
    have e: "lang_entries ?tb (take 6 ?sorted) = Inr es"
      using h by (simp add: lang_data_def)
    have 2: "?shown es = take 6 ?sorted"
      and 5: "\<forall>e \<in> set es. percent e = round1 (fmul (fl (of_nat (lang_bytes e) / of_nat ?tb)) 100)"
      using lang_entries_props[OF e] by blast+
    have "length (?shown es) \<le> 6" unfolding 2 by simp
    then have 1: "length es \<le> 6" by simp
    have d: "sorted_wrt (\<lambda>a b. snd a \<ge> snd b) ?sorted" by (rule sorted_reverse_descending)
    have "sorted_wrt (\<lambda>a b. snd a \<ge> snd b) (?shown es)"
      unfolding 2 by (rule take_sorted_wrt[OF d])
    then have 3: "sorted_wrt (\<lambda>a b. lang_bytes a \<ge> lang_bytes b) es"
      by (simp add: sorted_wrt_map)
    have 4: "\<forall>l \<in> set langs. l \<notin> set (?shown es) \<longrightarrow> (\<forall>e \<in> set es. snd l \<le> lang_bytes e)"
    proof (intro ballI impI)
      fix l e assume l: "l \<in> set langs" "l \<notin> set (?shown es)" and e: "e \<in> set es"
      have "set ?sorted = set (take 6 ?sorted) \<union> set (drop 6 ?sorted)"
        by (metis append_take_drop_id set_append)
      then have "l \<in> set (take 6 ?sorted) \<union> set (drop 6 ?sorted)"
        using l(1) by (simp add: set_sorted_reverse)
      then have ld: "l \<in> set (drop 6 ?sorted)" using l(2) unfolding 2 by blast
      have "(lang_name e, lang_bytes e) \<in> set (take 6 ?sorted)"
        using e unfolding 2[symmetric] by auto
      then have "snd (lang_name e, lang_bytes e) \<ge> snd l"
        using sorted_wrt_take_drop[OF d _ ld] by blast
      then show "snd l \<le> lang_bytes e" by simp
    qed
    have 6: "sum_list (map percent es) < 10031 / 100" by (rule percent_sum_bound[OF h])
    show ?thesis using 1 2 3 4 5 6 by - (intro conjI; assumption)
  qed
  have B: "\<exists>es. lang_data langs = Inr es" if "langs = [] \<or> 0 < sum_list (map snd langs)"
  proof -
    have "0 < ?tb" using that by auto
    then show ?thesis unfolding lang_data_def Let_def by (rule lang_entries_Inr)
  qed
  show ?thesis using A B python_javascript by blast
qed

theorem top_languages_witness:
  "0 < sum_list (map snd [(''Python'', 3336::nat), (''Go'', 3336), (''Shell'', 3328)])
   \<and> lang_data [(''Python'', 3336), (''Go'', 3336), (''Shell'', 3328)]
     = Inr [\<lparr>lang_name = ''Python'', lang_bytes = 3336, percent = fl (334 / 10)\<rparr>,
            \<lparr>lang_name = ''Go'', lang_bytes = 3336, percent = fl (334 / 10)\<rparr>,
            \<lparr>lang_name = ''Shell'', lang_bytes = 3328, percent = fl (333 / 10)\<rparr>]
   \<and> fl (334 / 10) + fl (334 / 10) + fl (333 / 10) < 10031 / 100
   \<and> 100 < fl (334 / 10) + fl (334 / 10) + fl (333 / 10)"
proof -
  let ?es = "[\<lparr>lang_name = ''Python'', lang_bytes = 3336, percent = fl (334 / 10)\<rparr>,
            \<lparr>lang_name = ''Go'', lang_bytes = 3336, percent = fl (334 / 10)\<rparr>,
            \<lparr>lang_name = ''Shell'', lang_bytes = 3328, percent = fl (333 / 10)\<rparr>]"
  have a: "lang_data [(''Python'', 3336), (''Go'', 3336), (''Shell'', 3328)] = Inr ?es"
    by code_simp
  have b: "100 < fl (334 / 10) + fl (334 / 10) + fl (333 / 10)"
    by code_simp
  have "sum_list (map percent ?es) < 10031 / 100"
    using top_languages [of "[(''Python'', 3336), (''Go'', 3336), (''Shell'', 3328)]"] a
    by blast
  then show ?thesis using a b by simp
qed

end
